theory Spec2Isabelle
  imports Complex_Main "HOL-Library.Multiset"
begin

section \<open>Outcomes\<close>

text \<open>
  The Python of \<^verbatim>\<open>networks.py\<close> raises where a shape, an index or an attribute is wrong.
  Every raise is a value here: a computation returns \<open>Inl e\<close> for the exception \<open>e\<close> and
  \<open>Inr v\<close> for the value \<open>v\<close>.
\<close>

datatype error =
  AttributeError | TypeError | ValueError | IndexError | OverflowError | RuntimeError
  | ZeroDivisionError

definition and_then :: "error + 'a \<Rightarrow> ('a \<Rightarrow> error + 'b) \<Rightarrow> error + 'b" where
  "and_then r f = (case r of Inl e \<Rightarrow> Inl e | Inr v \<Rightarrow> f v)"

text \<open>
  Tensor entries are real numbers: the rounding of the arithmetic on entries is left out
  (the scale count and the pads, which are computed on scalars, are in double precision,
  see the next section). A scalar a
  loss returns can also be \<^verbatim>\<open>nan\<close> or \<^verbatim>\<open>inf\<close>, the quotient by a zero count or a zero
  sum: that is \<open>NonFinite\<close>, a value and not an exception.
\<close>

datatype scalar = Fin real | NonFinite

definition fdiv :: "real \<Rightarrow> real \<Rightarrow> scalar" where
  "fdiv a b = (if b = 0 then NonFinite else Fin (a / b))"

fun s_add :: "scalar \<Rightarrow> scalar \<Rightarrow> scalar" where
  "s_add (Fin a) (Fin b) = Fin (a + b)"
| "s_add _ _ = NonFinite"

fun s_scale :: "real \<Rightarrow> scalar \<Rightarrow> scalar" where
  "s_scale w (Fin a) = Fin (w * a)"
| "s_scale w NonFinite = NonFinite"

section \<open>Double-precision arithmetic\<close>

text \<open>
  numpy and Python compute the scale count and the pads in IEEE 754 double precision: the
  result of an operation is its exact result rounded to the nearest double, a tie going
  to the double with the even significand. A double is an integer below \<open>2 ^ 53\<close> in
  magnitude times a power of two. \<open>round_even\<close> rounds a real to the nearest integer,
  ties to even; \<open>binade x\<close> is the exponent of the power of two at or below \<open>\<bar>x\<bar>\<close>, not
  less than \<open>-1022\<close>, where the subnormal doubles begin; \<open>ulp x\<close> is the distance between
  neighbouring doubles there. A rounded result of magnitude \<open>2 ^ 1024\<close> or more does not
  fit a double: the operation returns \<^verbatim>\<open>inf\<close>.
\<close>

definition round_even :: "real \<Rightarrow> int" where
  "round_even x =
     (let f = \<lfloor>x\<rfloor>
      in if x - of_int f < 1 / 2 then f
         else if 1 / 2 < x - of_int f then f + 1
         else if even f then f else f + 1)"

definition binade :: "real \<Rightarrow> int" where
  "binade x = max \<lfloor>log 2 \<bar>x\<bar>\<rfloor> (- 1022)"

definition ulp :: "real \<Rightarrow> real" where
  "ulp x = 2 powr (of_int (binade x) - 52)"

definition round_double :: "real \<Rightarrow> real" where
  "round_double x = (if x = 0 then 0 else of_int (round_even (x / ulp x)) * ulp x)"

definition is_inf :: "real \<Rightarrow> bool" where
  "is_inf y \<longleftrightarrow> 2 ^ 1024 \<le> \<bar>y\<bar>"

text \<open>
  The conversion of an integer to a double, and the product and the quotient of two
  doubles (the quotient for a divisor that is not zero).
\<close>

definition float_of_int :: "int \<Rightarrow> real" where
  "float_of_int k = round_double (of_int k)"

definition float_mul :: "real \<Rightarrow> real \<Rightarrow> real" where
  "float_mul a b = round_double (a * b)"

definition float_div :: "real \<Rightarrow> real \<Rightarrow> real" where
  "float_div a b = round_double (a / b)"

section \<open>Tensors\<close>

text \<open>
  A feature tensor is a 4-dimensional array (batch, channels, height, width): its four
  sizes and its entries by index. Only the entries below the sizes are meaningful.
\<close>

record tensor =
  dim_b :: nat
  dim_c :: nat
  dim_h :: nat
  dim_w :: nat
  elem :: "nat \<Rightarrow> nat \<Rightarrow> nat \<Rightarrow> nat \<Rightarrow> real"

definition shape :: "tensor \<Rightarrow> nat \<times> nat \<times> nat \<times> nat" where
  "shape t = (dim_b t, dim_c t, dim_h t, dim_w t)"

definition numel :: "tensor \<Rightarrow> nat" where
  "numel t = dim_b t * dim_c t * dim_h t * dim_w t"

definition tsum :: "tensor \<Rightarrow> real" where
  "tsum t = (\<Sum>n<dim_b t. \<Sum>c<dim_c t. \<Sum>i<dim_h t. \<Sum>j<dim_w t. elem t n c i j)"

definition ones_like :: "tensor \<Rightarrow> tensor" where
  "ones_like t = t\<lparr>elem := (\<lambda>n c i j. 1)\<rparr>"

definition zeros_like :: "tensor \<Rightarrow> tensor" where
  "zeros_like t = t\<lparr>elem := (\<lambda>n c i j. 0)\<rparr>"

definition scale_tensor :: "real \<Rightarrow> tensor \<Rightarrow> tensor" where
  "scale_tensor k t = t\<lparr>elem := (\<lambda>n c i j. elem t n c i j * k)\<rparr>"

text \<open>
  Broadcasting of two sizes: equal, or one of them is 1; the entry of a size-1 dimension
  is read at index 0.
\<close>

definition bdim :: "nat \<Rightarrow> nat \<Rightarrow> nat option" where
  "bdim a b = (if a = b then Some a else if a = 1 then Some b
               else if b = 1 then Some a else None)"

definition bidx :: "nat \<Rightarrow> nat \<Rightarrow> nat" where
  "bidx d i = (if d = 1 then 0 else i)"

definition binop :: "(real \<Rightarrow> real \<Rightarrow> real) \<Rightarrow> tensor \<Rightarrow> tensor \<Rightarrow> error + tensor" where
  "binop f x y =
     (case (bdim (dim_b x) (dim_b y), bdim (dim_c x) (dim_c y),
            bdim (dim_h x) (dim_h y), bdim (dim_w x) (dim_w y)) of
        (Some b, Some c, Some h, Some w) \<Rightarrow>
          Inr \<lparr>dim_b = b, dim_c = c, dim_h = h, dim_w = w,
               elem = (\<lambda>n k i j.
                 f (elem x (bidx (dim_b x) n) (bidx (dim_c x) k) (bidx (dim_h x) i) (bidx (dim_w x) j))
                   (elem y (bidx (dim_b y) n) (bidx (dim_c y) k) (bidx (dim_h y) i) (bidx (dim_w y) j)))\<rparr>
      | _ \<Rightarrow> Inl RuntimeError)"

text \<open>An in-place operation \<^verbatim>\<open>x op= y\<close> keeps the shape of \<open>x\<close>, or raises.\<close>

definition binop_inplace :: "(real \<Rightarrow> real \<Rightarrow> real) \<Rightarrow> tensor \<Rightarrow> tensor \<Rightarrow> error + tensor" where
  "binop_inplace f x y =
     and_then (binop f x y) (\<lambda>z. if shape z = shape x then Inr z else Inl RuntimeError)"

section \<open>Loss modules\<close>

text \<open>
  \<^verbatim>\<open>nn.MSELoss()\<close> and \<^verbatim>\<open>nn.L1Loss()\<close> with their default reduction: the mean over the
  broadcast of input and target.
\<close>

datatype loss_fn = MSELoss | L1Loss

definition mean :: "tensor \<Rightarrow> scalar" where
  "mean t = fdiv (tsum t) (real (numel t))"

fun apply_loss :: "loss_fn \<Rightarrow> tensor \<Rightarrow> tensor \<Rightarrow> error + scalar" where
  "apply_loss MSELoss x y = and_then (binop (\<lambda>a b. (a - b)\<^sup>2) x y) (\<lambda>d. Inr (mean d))"
| "apply_loss L1Loss x y = and_then (binop (\<lambda>a b. \<bar>a - b\<bar>) x y) (\<lambda>d. Inr (mean d))"

text \<open>
  A module is its attribute dictionary: what \<^verbatim>\<open>self.name = value\<close> has stored. Reading an
  attribute that was never stored raises AttributeError. A forward call returns the module
  as the call leaves it, and the value or the exception of the call.
\<close>

datatype attr = ANone | ALoss loss_fn | ATensor tensor | ANum real

type_synonym pymodule = "string \<Rightarrow> attr option"

definition getattr :: "pymodule \<Rightarrow> string \<Rightarrow> error + attr" where
  "getattr self name = (case self name of None \<Rightarrow> Inl AttributeError | Some a \<Rightarrow> Inr a)"

definition call_loss :: "attr \<Rightarrow> tensor \<Rightarrow> tensor \<Rightarrow> error + scalar" where
  "call_loss a x y = (case a of ALoss l \<Rightarrow> apply_loss l x y | _ \<Rightarrow> Inl TypeError)"

subsection \<open>GANLoss\<close>

definition GANLoss_init :: pymodule where
  "GANLoss_init = [''label_tensor'' \<mapsto> ANone, ''loss'' \<mapsto> ALoss MSELoss]"

definition label_map :: "tensor \<Rightarrow> bool \<Rightarrow> tensor" where
  "label_map d_last_layer is_d_input_real =
     scale_tensor (if is_d_input_real then 1 else 0) (ones_like d_last_layer)"

definition GANLoss_forward :: "pymodule \<Rightarrow> tensor \<Rightarrow> bool \<Rightarrow> pymodule \<times> (error + scalar)" where
  "GANLoss_forward self d_last_layer is_d_input_real =
     (let self' = self(''label_tensor'' \<mapsto> ATensor (label_map d_last_layer is_d_input_real))
      in (self',
          and_then (getattr self' ''loss'') (\<lambda>loss.
          and_then (getattr self' ''label_tensor'') (\<lambda>lt.
            case lt of ATensor l \<Rightarrow> call_loss loss d_last_layer l | _ \<Rightarrow> Inl TypeError))))"

subsection \<open>WeightedMSELoss\<close>

definition WeightedMSELoss_init :: "bool \<Rightarrow> pymodule" where
  "WeightedMSELoss_init use_L1 =
     [''unweighted_loss'' \<mapsto> ALoss (if use_L1 then L1Loss else MSELoss)]"

definition WeightedMSELoss_forward ::
  "pymodule \<Rightarrow> tensor \<Rightarrow> tensor \<Rightarrow> tensor option \<Rightarrow> pymodule \<times> (error + scalar)" where
  "WeightedMSELoss_forward self input_tensor target_tensor loss_mask =
     (self,
      case loss_mask of
        Some m \<Rightarrow>
          and_then (binop (\<lambda>a b. (a - b)\<^sup>2) target_tensor input_tensor) (\<lambda>e.
          and_then (binop_inplace (\<lambda>a b. a * b) e m) (\<lambda>e'.
            Inr (fdiv (tsum e') (tsum m))))
      | None \<Rightarrow>
          and_then (getattr self ''unweighted_loss'') (\<lambda>loss.
            call_loss loss input_tensor target_tensor))"

subsection \<open>MultiScaleLoss\<close>

text \<open>
  \<^verbatim>\<open>f.interpolate(t, scale_factor=s, mode='bilinear')\<close>: the spatial sizes become
  \<open>\<lfloor>h * s\<rfloor>\<close> and \<open>\<lfloor>w * s\<rfloor>\<close>, which must be positive. The interpolated entries are those
  of the library's bilinear kernel, a parameter \<open>bil\<close> of the model: from the source
  tensor and the new sizes to the entries.
\<close>

type_synonym resampler = "tensor \<Rightarrow> nat \<Rightarrow> nat \<Rightarrow> nat \<Rightarrow> nat \<Rightarrow> nat \<Rightarrow> nat \<Rightarrow> real"

definition interpolate_size :: "resampler \<Rightarrow> tensor \<Rightarrow> nat \<Rightarrow> nat \<Rightarrow> error + tensor" where
  "interpolate_size bil t h w =
     (if dim_h t = 0 \<or> dim_w t = 0 \<or> h = 0 \<or> w = 0 then Inl RuntimeError
      else Inr (t\<lparr>dim_h := h, dim_w := w, elem := bil t h w\<rparr>))"

definition interpolate_scale :: "resampler \<Rightarrow> tensor \<Rightarrow> real \<Rightarrow> error + tensor" where
  "interpolate_scale bil t s =
     interpolate_size bil t (nat \<lfloor>real (dim_h t) * s\<rfloor>) (nat \<lfloor>real (dim_w t) * s\<rfloor>)"

definition MultiScaleLoss_init :: pymodule where
  "MultiScaleLoss_init = [''mse'' \<mapsto> ALoss MSELoss]"

text \<open>
  The loop of \<^verbatim>\<open>MultiScaleLoss.forward\<close> over \<^verbatim>\<open>enumerate(scale_weights)\<close>: \<open>i\<close> is the
  index, \<open>loss\<close> the sum so far. \<^verbatim>\<open>self.scale_factor**(-i)\<close> is \<open>1 / s ^ i\<close>, and raises
  for a zero base and a negative exponent.
\<close>

fun MultiScaleLoss_loop ::
  "resampler \<Rightarrow> pymodule \<Rightarrow> tensor \<Rightarrow> tensor \<Rightarrow> real list \<Rightarrow> nat \<Rightarrow> scalar \<Rightarrow> error + scalar" where
  "MultiScaleLoss_loop bil self input_tensor target_tensor [] i loss = Inr loss"
| "MultiScaleLoss_loop bil self input_tensor target_tensor (scale_weight # rest) i loss =
     and_then (getattr self ''scale_factor'') (\<lambda>sf.
       case sf of
         ANum s \<Rightarrow>
           and_then (if s = 0 \<and> 0 < i then Inl ZeroDivisionError else Inr (1 / s ^ i)) (\<lambda>factor.
           and_then (interpolate_scale bil input_tensor factor) (\<lambda>input_tensor'.
           and_then (getattr self ''mse'') (\<lambda>mse.
           and_then (call_loss mse input_tensor' target_tensor) (\<lambda>l.
             MultiScaleLoss_loop bil self input_tensor' target_tensor rest (Suc i)
               (s_add loss (s_scale scale_weight l))))))
       | _ \<Rightarrow> Inl TypeError)"

definition MultiScaleLoss_forward ::
  "resampler \<Rightarrow> pymodule \<Rightarrow> tensor \<Rightarrow> tensor \<Rightarrow> real list \<Rightarrow> pymodule \<times> (error + scalar)" where
  "MultiScaleLoss_forward bil self input_tensor target_tensor scale_weights =
     (self, MultiScaleLoss_loop bil self input_tensor target_tensor scale_weights 0 (Fin 0))"

text \<open>
  The value the specification gives for the masked reconstruction loss: the squared error
  weighted by the mask, summed over the entries of the prediction.
\<close>

definition masked_sq_error :: "tensor \<Rightarrow> tensor \<Rightarrow> tensor \<Rightarrow> real" where
  "masked_sq_error m x t =
     (\<Sum>n<dim_b x. \<Sum>c<dim_c x. \<Sum>i<dim_h x. \<Sum>j<dim_w x.
        elem m n c i j * (elem t n c i j - elem x n c i j)\<^sup>2)"

section \<open>Multi-scale discriminator: the number of scales\<close>

text \<open>
  \<^verbatim>\<open>MultiScaleDiscriminator.__init__\<close> computes
  \<^verbatim>\<open>np.min([np.int(np.ceil(np.log(np.min(real_crop_size) * 1.0 / self.min_size) / np.log(self.scale_factor))), max_n_scales])\<close>
  with \<^verbatim>\<open>min_size = 16\<close>; \<^verbatim>\<open>np.int\<close> is Python's \<^verbatim>\<open>int\<close>, as in the versions of numpy
  that have it. The product by \<^verbatim>\<open>1.0\<close>, the two quotients and the ceiling are those of
  doubles. The logarithm is the one of the mathematical library numpy is built on, whose
  last digit IEEE 754 does not fix: it is a parameter \<open>np_log\<close> of the model, from a
  positive double to a double. At 0 numpy's logarithm is \<^verbatim>\<open>-inf\<close> and below 0 it is
  \<^verbatim>\<open>nan\<close>. Where the quotient of the two logarithms is \<^verbatim>\<open>nan\<close> the conversion
  \<^verbatim>\<open>np.int\<close> raises ValueError, where it is infinite OverflowError. The scale factor is
  the value of a double, and the crop sizes are those of tensors, below \<open>2 ^ 63\<close>.
\<close>

definition crop_ratio :: "nat \<Rightarrow> real" where
  "crop_ratio m = float_div (float_mul (float_of_int (int m)) 1) 16"

definition MultiScaleDiscriminator_n_scales ::
  "(real \<Rightarrow> real) \<Rightarrow> nat \<times> nat \<Rightarrow> int \<Rightarrow> real \<Rightarrow> error + int" where
  "MultiScaleDiscriminator_n_scales np_log real_crop_size max_n_scales scale_factor =
     (let x = crop_ratio (min (fst real_crop_size) (snd real_crop_size))
      in if scale_factor < 0 then Inl ValueError
         else if scale_factor = 0
         then (if x = 0 then Inl ValueError else Inr (min 0 max_n_scales))
         else if x = 0 then Inl OverflowError
         else if np_log scale_factor = 0
         then (if np_log x = 0 then Inl ValueError else Inl OverflowError)
         else if is_inf (float_div (np_log x) (np_log scale_factor)) then Inl OverflowError
         else Inr (min \<lceil>float_div (np_log x) (np_log scale_factor)\<rceil> max_n_scales))"

text \<open>
  The logarithm rounded to the nearest double: the value that numpy's logarithm has at
  2, 4, 16 and \<open>1/2\<close>, the arguments of the examples.
\<close>

definition nearest_log :: "real \<Rightarrow> real" where
  "nearest_log x = round_double (ln x)"

section \<open>Geometric transform\<close>

text \<open>
  Reflection padding by \<open>left\<close>, \<open>right\<close>, \<open>up\<close> (the top) and \<open>down\<close> (the bottom): each pad
  must be smaller than the size it pads, and the padded entries mirror the tensor about
  its border.
\<close>

definition reflect_index :: "nat \<Rightarrow> int \<Rightarrow> nat" where
  "reflect_index n k = nat (if k < 0 then - k else if int n \<le> k then 2 * (int n - 1) - k else k)"

definition reflection_pad :: "nat \<Rightarrow> nat \<Rightarrow> nat \<Rightarrow> nat \<Rightarrow> tensor \<Rightarrow> error + tensor" where
  "reflection_pad left right up down t =
     (if dim_w t \<le> left \<or> dim_w t \<le> right \<or> dim_h t \<le> up \<or> dim_h t \<le> down
      then Inl RuntimeError
      else Inr (t\<lparr>dim_h := dim_h t + up + down, dim_w := dim_w t + left + right,
                 elem := (\<lambda>n c i j. elem t n c (reflect_index (dim_h t) (int i - int up))
                                            (reflect_index (dim_w t) (int j - int left)))\<rparr>))"

text \<open>
  The pads of \<^verbatim>\<open>GeoTransform.forward\<close>, in the order \<^verbatim>\<open>f.pad\<close> takes them (left, right,
  top, bottom):
  \<^verbatim>\<open>(np.abs(np.int(np.ceil(sz[3] * shifts[0]))), np.abs(np.int(np.ceil(-sz[3] * shifts[1]))), 0, 0)\<close>.
  The width is an integer and a shift a finite double: each product is the product of two
  doubles, rounded, and \<^verbatim>\<open>np.int\<close> raises OverflowError for a product that is \<^verbatim>\<open>inf\<close>.
\<close>

definition GeoTransform_pads :: "nat \<Rightarrow> real \<times> real \<Rightarrow> error + nat \<times> nat \<times> nat \<times> nat" where
  "GeoTransform_pads w shifts =
     (let p_left = float_mul (float_of_int (int w)) (fst shifts);
          p_right = float_mul (float_of_int (- int w)) (snd shifts)
      in if is_inf p_left \<or> is_inf p_right then Inl OverflowError
         else Inr (nat \<bar>\<lceil>p_left\<rceil>\<bar>, nat \<bar>\<lceil>p_right\<rceil>\<bar>, 0, 0))"

text \<open>
  The product, in double precision, of the width and the magnitude of a shift: the pads
  are stated with it below.
\<close>

definition shift_product :: "nat \<Rightarrow> real \<Rightarrow> real" where
  "shift_product w s = float_mul (float_of_int (int w)) \<bar>s\<bar>"

text \<open>
  Modelled from the spec: \<^verbatim>\<open>homography_based_on_top_corners_x_shift\<close> and
  \<^verbatim>\<open>homography_grid\<close> of \<^verbatim>\<open>util.py\<close> are not part of the sources. The specification has
  the first map the shift descriptor to a projective transform and the second build a
  resampling grid of the target size from it; \<^verbatim>\<open>f.grid_sample\<close> then returns one entry per
  grid point, for every batch item and channel of the padded tensor. The resampled
  entries are a parameter \<open>warp\<close>: from the shifts, the padded tensor and the target size.
\<close>

type_synonym warper = "real \<times> real \<Rightarrow> tensor \<Rightarrow> nat \<Rightarrow> nat \<Rightarrow> nat \<Rightarrow> nat \<Rightarrow> nat \<Rightarrow> nat \<Rightarrow> real"

definition grid_sample :: "warper \<Rightarrow> real \<times> real \<Rightarrow> nat \<times> nat \<Rightarrow> tensor \<Rightarrow> tensor" where
  "grid_sample warp shifts target_size pad =
     pad\<lparr>dim_h := fst target_size, dim_w := snd target_size,
         elem := warp shifts pad (fst target_size) (snd target_size)\<rparr>"

definition GeoTransform_forward ::
  "warper \<Rightarrow> tensor \<Rightarrow> nat \<times> nat \<Rightarrow> real \<times> real \<Rightarrow> error + tensor" where
  "GeoTransform_forward warp input_tensor target_size shifts =
     and_then (GeoTransform_pads (dim_w input_tensor) shifts) (\<lambda>(left, right, up, down).
     and_then (reflection_pad left right up down input_tensor) (\<lambda>pad.
       Inr (grid_sample warp shifts target_size pad)))"

section \<open>Crop and swap utilities\<close>

text \<open>
  A Python slice \<^verbatim>\<open>a:b\<close> on a dimension of size \<open>n\<close>: a negative bound counts from the
  end, and both bounds are clamped into \<open>0..n\<close>. The slice holds the indices from the
  first bound up to, but without, the second: none when the second is not above the first.
\<close>

definition slice_bound :: "int \<Rightarrow> nat \<Rightarrow> nat" where
  "slice_bound k n = (if k < 0 then nat (max (k + int n) 0) else min (nat k) n)"

definition in_slice :: "int \<Rightarrow> int \<Rightarrow> nat \<Rightarrow> nat \<Rightarrow> bool" where
  "in_slice a b n i \<longleftrightarrow> slice_bound a n \<le> i \<and> i < slice_bound b n"

text \<open>\<^verbatim>\<open>t[:, :, v0:v1, h0:h1]\<close>, read.\<close>

definition slice_hw :: "tensor \<Rightarrow> int \<Rightarrow> int \<Rightarrow> int \<Rightarrow> int \<Rightarrow> tensor" where
  "slice_hw t v0 v1 h0 h1 =
     t\<lparr>dim_h := slice_bound v1 (dim_h t) - slice_bound v0 (dim_h t),
       dim_w := slice_bound h1 (dim_w t) - slice_bound h0 (dim_w t),
       elem := (\<lambda>n c i j. elem t n c (slice_bound v0 (dim_h t) + i) (slice_bound h0 (dim_w t) + j))\<rparr>"

text \<open>
  \<^verbatim>\<open>t[:, :, v0:v1, h0:h1] = src\<close>: the source must broadcast to the shape of the
  slice.
\<close>

definition fits :: "nat \<Rightarrow> nat \<Rightarrow> bool" where
  "fits d_src d_slice \<longleftrightarrow> d_src = d_slice \<or> d_src = 1"

definition assign_hw :: "tensor \<Rightarrow> int \<Rightarrow> int \<Rightarrow> int \<Rightarrow> int \<Rightarrow> tensor \<Rightarrow> error + tensor" where
  "assign_hw t v0 v1 h0 h1 src =
     (if fits (dim_b src) (dim_b t) \<and> fits (dim_c src) (dim_c t)
         \<and> fits (dim_h src) (slice_bound v1 (dim_h t) - slice_bound v0 (dim_h t))
         \<and> fits (dim_w src) (slice_bound h1 (dim_w t) - slice_bound h0 (dim_w t))
      then Inr (t\<lparr>elem := (\<lambda>n c i j.
                  if in_slice v0 v1 (dim_h t) i \<and> in_slice h0 h1 (dim_w t) j
                  then elem src (bidx (dim_b src) n) (bidx (dim_c src) c)
                         (bidx (dim_h src) (i - slice_bound v0 (dim_h t)))
                         (bidx (dim_w src) (j - slice_bound h0 (dim_w t)))
                  else elem t n c i j)\<rparr>)
      else Inl RuntimeError)"

text \<open>\<^verbatim>\<open>t[:, :, v0:v1, h0:h1] = value\<close>, for a number.\<close>

definition fill_hw :: "tensor \<Rightarrow> int \<Rightarrow> int \<Rightarrow> int \<Rightarrow> int \<Rightarrow> real \<Rightarrow> tensor" where
  "fill_hw t v0 v1 h0 h1 val =
     t\<lparr>elem := (\<lambda>n c i j.
          if in_slice v0 v1 (dim_h t) i \<and> in_slice h0 h1 (dim_w t) j then val
          else elem t n c i j)\<rparr>"

text \<open>
  \<^verbatim>\<open>np.uint32\<close> of a float: truncated towards zero, modulo \<open>2 ^ 32\<close>. \<^verbatim>\<open>np.clip\<close> takes
  the lower bound first and the upper bound last. \<^verbatim>\<open>np.random.randint(0, high)\<close> raises
  ValueError unless \<open>0 < high\<close>; its draw is a parameter \<open>r\<close> of the model, reduced into
  the range.
\<close>

definition np_uint32 :: "real \<Rightarrow> int" where
  "np_uint32 x = (if 0 \<le> x then \<lfloor>x\<rfloor> else \<lceil>x\<rceil>) mod 2 ^ 32"

definition np_clip :: "int \<Rightarrow> int \<Rightarrow> int \<Rightarrow> int" where
  "np_clip x lo hi = min (max x lo) hi"

definition randint :: "int \<Rightarrow> int \<Rightarrow> nat \<Rightarrow> error + int" where
  "randint low high r = (if high \<le> low then Inl ValueError else Inr (low + int r mod (high - low)))"

subsection \<open>RandomCrop\<close>

record RandomCrop =
  crop_size :: "(int \<times> int) option"
  return_pos :: bool
  must_divide :: real

definition RandomCrop_init :: "(int \<times> int) option \<Rightarrow> bool \<Rightarrow> real \<Rightarrow> RandomCrop" where
  "RandomCrop_init crop_size' return_pos' must_divide' =
     \<lparr>crop_size = crop_size', return_pos = return_pos', must_divide = must_divide'\<rparr>"

datatype crop_result =
  Crops "tensor option list"
| CropsPos "tensor option list" "int \<times> int"

text \<open>
  One side of the configured crop:
  \<^verbatim>\<open>np.uint32(np.floor(np.clip(c, 0, im - 1) * 1.0 / must_divide) * must_divide)\<close>. For a
  zero \<^verbatim>\<open>must_divide\<close> the quotient is \<^verbatim>\<open>nan\<close> or infinite and its product with 0 is
  \<^verbatim>\<open>nan\<close>, which \<^verbatim>\<open>np.uint32\<close> turns into 0: the crop is empty.
\<close>

definition configured_side :: "real \<Rightarrow> int \<Rightarrow> nat \<Rightarrow> int" where
  "configured_side md c im =
     (if md = 0 then 0
      else np_uint32 (of_int \<lfloor>of_int (np_clip c 0 (int im - 1)) * 1 / md\<rfloor> * md))"

text \<open>
  The crop size of a call: the one supplied, as it is, or else the configured one, clamped
  and floored.
\<close>

definition call_crop_size ::
  "RandomCrop \<Rightarrow> (int \<times> int) option \<Rightarrow> nat \<Rightarrow> nat \<Rightarrow> error + int \<times> int" where
  "call_crop_size self supplied im_v_sz im_h_sz =
     (case supplied of
        None \<Rightarrow>
          (case crop_size self of
             None \<Rightarrow> Inl TypeError
           | Some (c_v, c_h) \<Rightarrow>
               Inr (configured_side (must_divide self) c_v im_v_sz,
                    configured_side (must_divide self) c_h im_h_sz))
      | Some (cr_v_sz, cr_h_sz) \<Rightarrow> Inr (cr_v_sz, cr_h_sz))"

definition RandomCrop_forward ::
  "RandomCrop \<Rightarrow> tensor option list \<Rightarrow> (int \<times> int) option \<Rightarrow> nat \<times> nat \<Rightarrow> error + crop_result" where
  "RandomCrop_forward self input_tensors supplied draws =
     (case input_tensors of
        [] \<Rightarrow> Inl IndexError
      | None # _ \<Rightarrow> Inl AttributeError
      | Some t0 # _ \<Rightarrow>
          and_then (call_crop_size self supplied (dim_h t0) (dim_w t0)) (\<lambda>(cr_v_sz, cr_h_sz).
          and_then (randint 0 (int (dim_h t0) - cr_v_sz) (fst draws)) (\<lambda>top_left_v.
          and_then (randint 0 (int (dim_w t0) - cr_h_sz) (snd draws)) (\<lambda>top_left_h.
            let out_tensors =
                  map (map_option (\<lambda>t. slice_hw t top_left_v (top_left_v + cr_v_sz)
                                                   top_left_h (top_left_h + cr_h_sz)))
                      input_tensors
            in Inr (if return_pos self then CropsPos out_tensors (top_left_v, top_left_h)
                    else Crops out_tensors)))))"

subsection \<open>SwapCrops\<close>

record SwapCrops =
  rand_crop_1 :: RandomCrop
  rand_crop_2 :: RandomCrop
  min_crop_size :: real
  max_crop_size :: real
  mask_width :: int

definition SwapCrops_init :: "real \<Rightarrow> real \<Rightarrow> int \<Rightarrow> SwapCrops" where
  "SwapCrops_init min_crop_size' max_crop_size' mask_width' =
     \<lparr>rand_crop_1 = RandomCrop_init None True 4,
      rand_crop_2 = RandomCrop_init None True 4,
      min_crop_size = min_crop_size', max_crop_size = max_crop_size',
      mask_width = mask_width'\<rparr>"

text \<open>
  The random draws of one call: the two numbers of \<^verbatim>\<open>np.random.rand(2)\<close>, and the draws
  of the two calls of \<^verbatim>\<open>RandomCrop.forward\<close>.
\<close>

record swap_draws =
  rand_2 :: "real \<times> real"
  draws_1 :: "nat \<times> nat"
  draws_2 :: "nat \<times> nat"

definition swap_crop_size :: "SwapCrops \<Rightarrow> swap_draws \<Rightarrow> int \<times> int" where
  "swap_crop_size self d =
     (np_uint32 (fst (rand_2 d) * (max_crop_size self - min_crop_size self) + min_crop_size self),
      np_uint32 (snd (rand_2 d) * (max_crop_size self - min_crop_size self) + min_crop_size self))"

text \<open>The unpacking \<^verbatim>\<open>[crop], (top_left_v, top_left_h) = ...\<close> of a result.\<close>

fun unpack_crop :: "crop_result \<Rightarrow> error + tensor \<times> int \<times> int" where
  "unpack_crop (CropsPos [Some crop] (top_left_v, top_left_h)) = Inr (crop, top_left_v, top_left_h)"
| "unpack_crop _ = Inl ValueError"

text \<open>The four lines of width \<open>2 * mw\<close> drawn over the boundaries of one region.\<close>

definition draw_lines :: "tensor \<Rightarrow> int \<Rightarrow> int \<Rightarrow> int \<Rightarrow> int \<Rightarrow> int \<Rightarrow> tensor" where
  "draw_lines loss_mask mw top_left_v top_left_h cr_v_sz cr_h_sz =
     (let m1 = fill_hw loss_mask top_left_v (top_left_v + cr_v_sz) (top_left_h - mw) (top_left_h + mw) 0;
          m2 = fill_hw m1 (top_left_v - mw) (top_left_v + mw) top_left_h (top_left_h + cr_h_sz) 0;
          m3 = fill_hw m2 top_left_v (top_left_v + cr_v_sz)
                 (top_left_h + cr_h_sz - mw) (top_left_h + cr_h_sz + mw) 0
      in fill_hw m3 (top_left_v + cr_v_sz - mw) (top_left_v + cr_v_sz + mw)
           top_left_h (top_left_h + cr_h_sz) 0)"

definition SwapCrops_forward :: "SwapCrops \<Rightarrow> tensor \<Rightarrow> swap_draws \<Rightarrow> error + tensor \<times> tensor" where
  "SwapCrops_forward self input_tensor d =
     (case swap_crop_size self d of (cr_v_sz, cr_h_sz) \<Rightarrow>
        and_then (RandomCrop_forward (rand_crop_1 self) [Some input_tensor]
                    (Some (cr_v_sz, cr_h_sz)) (draws_1 d)) (\<lambda>r1.
        and_then (unpack_crop r1) (\<lambda>(crop_1, top_left_v_1, top_left_h_1).
        and_then (RandomCrop_forward (rand_crop_1 self) [Some input_tensor]
                    (Some (cr_v_sz, cr_h_sz)) (draws_2 d)) (\<lambda>r2.
        and_then (unpack_crop r2) (\<lambda>(crop_2, top_left_v_2, top_left_h_2).
        and_then (assign_hw ((zeros_like input_tensor)\<lparr>elem := elem input_tensor\<rparr>)
                    top_left_v_1 (top_left_v_1 + cr_v_sz) top_left_h_1 (top_left_h_1 + cr_h_sz)
                    crop_2) (\<lambda>output_1.
        and_then (assign_hw output_1
                    top_left_v_2 (top_left_v_2 + cr_v_sz) top_left_h_2 (top_left_h_2 + cr_h_sz)
                    crop_1) (\<lambda>output_tensor.
          Inr (output_tensor,
               draw_lines
                 (draw_lines (ones_like input_tensor) (mask_width self)
                    top_left_v_1 top_left_h_1 cr_v_sz cr_h_sz)
                 (mask_width self) top_left_v_2 top_left_h_2 cr_v_sz cr_h_sz))))))))"

text \<open>The crops a result holds.\<close>

fun crops_of :: "crop_result \<Rightarrow> tensor option list" where
  "crops_of (Crops ts) = ts"
| "crops_of (CropsPos ts pos) = ts"

text \<open>
  Co-registered tensors: every tensor of the list that is present has the height and the
  width of \<open>t0\<close>.
\<close>

definition co_registered :: "tensor \<Rightarrow> tensor option list \<Rightarrow> bool" where
  "co_registered t0 ts =
     list_all (\<lambda>t. case t of None \<Rightarrow> True | Some t' \<Rightarrow> dim_h t' = dim_h t0 \<and> dim_w t' = dim_w t0) ts"

text \<open>
  The rectangle of pixels with top-left corner \<open>(v, h)\<close>, \<open>cv\<close> rows high and \<open>ch\<close> columns
  wide; and the layout one call of \<^verbatim>\<open>SwapCrops.forward\<close> samples: the common size of the two
  regions and their top-left corners, as the two calls of \<^verbatim>\<open>RandomCrop.forward\<close> draw them.
\<close>

definition rect :: "nat \<Rightarrow> nat \<Rightarrow> nat \<Rightarrow> nat \<Rightarrow> (nat \<times> nat) set" where
  "rect v h cv ch = {v..<v + cv} \<times> {h..<h + ch}"

definition swap_layout ::
  "SwapCrops \<Rightarrow> tensor \<Rightarrow> swap_draws \<Rightarrow> (nat \<times> nat) \<times> (nat \<times> nat) \<times> (nat \<times> nat)" where
  "swap_layout self input_tensor d =
     (case swap_crop_size self d of (cr_v_sz, cr_h_sz) \<Rightarrow>
        ((nat cr_v_sz, nat cr_h_sz),
         (nat (int (fst (draws_1 d)) mod (int (dim_h input_tensor) - cr_v_sz)),
          nat (int (snd (draws_1 d)) mod (int (dim_w input_tensor) - cr_h_sz))),
         (nat (int (fst (draws_2 d)) mod (int (dim_h input_tensor) - cr_v_sz)),
          nat (int (snd (draws_2 d)) mod (int (dim_w input_tensor) - cr_h_sz)))))"

text \<open>
  The four border bands of width \<open>2 * mw\<close> around a region, as the specification describes
  the zeros of the loss mask: along each of the four edges of the region, from \<open>mw\<close> pixels
  before the edge to \<open>mw\<close> pixels after it. (The differences are those of natural numbers:
  the definition is meant for a region at least \<open>mw\<close> pixels from the top and the left
  border, and at least \<open>mw\<close> pixels high and wide.)
\<close>

definition border_bands :: "nat \<Rightarrow> nat \<Rightarrow> nat \<Rightarrow> nat \<Rightarrow> nat \<Rightarrow> (nat \<times> nat) set" where
  "border_bands mw v h cv ch =
     rect v (h - mw) cv (2 * mw) \<union> rect (v - mw) h (2 * mw) ch
     \<union> rect v (h + ch - mw) cv (2 * mw) \<union> rect (v + cv - mw) h (2 * mw) ch"

section \<open>Network layers\<close>

text \<open>
  The layers the generator is built from. The learnt weights of a convolution and its bias
  are parameters of the layer. \<open>SpectralNormConv2d\<close> is
  \<^verbatim>\<open>nn.utils.spectral_norm(nn.Conv2d(...))\<close>: the same convolution, with the weight that the
  spectral normalisation leaves. The normalisation layer is \<^verbatim>\<open>nn.BatchNorm2d\<close>, whose
  entries depend on statistics of the batch or of earlier batches: they are a parameter
  too, from the input tensor to the entries.
\<close>

type_synonym entries = "nat \<Rightarrow> nat \<Rightarrow> nat \<Rightarrow> nat \<Rightarrow> real"

datatype layer =
  ReflectionPad2d nat
| Conv2d nat nat nat entries "nat \<Rightarrow> real"
| SpectralNormConv2d nat nat nat entries "nat \<Rightarrow> real"
| BatchNorm2d nat "tensor \<Rightarrow> entries"
| LeakyReLU real
| Tanh

text \<open>
  The convolution of \<open>c_in\<close> input channels into \<open>c_out\<close> output channels with a kernel of
  size \<open>k\<close>, stride 1 and no padding of its own. \<open>BatchNorm2d num_features stat\<close> raises in
  training mode when a channel holds a single value.
\<close>

definition conv2d ::
  "nat \<Rightarrow> nat \<Rightarrow> nat \<Rightarrow> entries \<Rightarrow> (nat \<Rightarrow> real) \<Rightarrow> tensor \<Rightarrow> error + tensor" where
  "conv2d c_in c_out k weight bias t =
     (if dim_c t \<noteq> c_in \<or> dim_h t < k \<or> dim_w t < k then Inl RuntimeError
      else Inr \<lparr>dim_b = dim_b t, dim_c = c_out, dim_h = dim_h t + 1 - k, dim_w = dim_w t + 1 - k,
                elem = (\<lambda>n out i j.
                  bias out + (\<Sum>c<c_in. \<Sum>di<k. \<Sum>dj<k.
                     weight out c di dj * elem t n c (i + di) (j + dj)))\<rparr>)"

fun apply_layer :: "bool \<Rightarrow> layer \<Rightarrow> tensor \<Rightarrow> error + tensor" where
  "apply_layer tr (ReflectionPad2d p) t = reflection_pad p p p p t"
| "apply_layer tr (Conv2d c_in c_out k weight bias) t = conv2d c_in c_out k weight bias t"
| "apply_layer tr (SpectralNormConv2d c_in c_out k weight bias) t = conv2d c_in c_out k weight bias t"
| "apply_layer tr (BatchNorm2d num_features stat) t =
     (if dim_c t \<noteq> num_features then Inl RuntimeError
      else if tr \<and> dim_b t * dim_h t * dim_w t = 1 then Inl ValueError
      else Inr (t\<lparr>elem := stat t\<rparr>))"
| "apply_layer tr (LeakyReLU slope) t =
     Inr (t\<lparr>elem := (\<lambda>n c i j. if 0 \<le> elem t n c i j then elem t n c i j
                                  else slope * elem t n c i j)\<rparr>)"
| "apply_layer tr Tanh t = Inr (t\<lparr>elem := (\<lambda>n c i j. tanh (elem t n c i j))\<rparr>)"

text \<open>
  The construction of a layer. \<^verbatim>\<open>nn.utils.spectral_norm\<close> reshapes the weight of its
  convolution into a matrix of \<^verbatim>\<open>out_channels\<close> rows when it is applied, and the reshape
  raises RuntimeError for a weight without rows: a spectrally normalised convolution with
  no output channel cannot be built. \<open>nn_Sequential\<close> is the construction of a block from
  its layers, and \<open>collect\<close> that of a list of blocks, which stops at the first that
  raises.
\<close>

fun constructs :: "layer \<Rightarrow> bool" where
  "constructs (SpectralNormConv2d c_in c_out k weight bias) \<longleftrightarrow> 0 < c_out"
| "constructs (ReflectionPad2d p) \<longleftrightarrow> True"
| "constructs (Conv2d c_in c_out k weight bias) \<longleftrightarrow> True"
| "constructs (BatchNorm2d num_features stat) \<longleftrightarrow> True"
| "constructs (LeakyReLU slope) \<longleftrightarrow> True"
| "constructs Tanh \<longleftrightarrow> True"

definition nn_Sequential :: "layer list \<Rightarrow> error + layer list" where
  "nn_Sequential layers = (if list_all constructs layers then Inr layers else Inl RuntimeError)"

fun collect :: "(error + 'a) list \<Rightarrow> error + 'a list" where
  "collect [] = Inr []"
| "collect (r # rs) = and_then r (\<lambda>v. and_then (collect rs) (\<lambda>vs. Inr (v # vs)))"

text \<open>\<^verbatim>\<open>nn.Sequential\<close>: the layers one after the other.\<close>

fun sequential :: "bool \<Rightarrow> layer list \<Rightarrow> tensor \<Rightarrow> error + tensor" where
  "sequential tr [] t = Inr t"
| "sequential tr (l # ls) t = and_then (apply_layer tr l t) (sequential tr ls)"

text \<open>\<^verbatim>\<open>nn.MaxPool2d(2, 2)\<close>: the sizes are halved, rounded down, and must stay positive.\<close>

definition max_pool :: "tensor \<Rightarrow> error + tensor" where
  "max_pool t =
     (if dim_h t div 2 = 0 \<or> dim_w t div 2 = 0 then Inl RuntimeError
      else Inr (t\<lparr>dim_h := dim_h t div 2, dim_w := dim_w t div 2,
                 elem := (\<lambda>n c i j.
                   max (max (elem t n c (2 * i) (2 * j)) (elem t n c (2 * i) (2 * j + 1)))
                       (max (elem t n c (2 * i + 1) (2 * j)) (elem t n c (2 * i + 1) (2 * j + 1))))\<rparr>))"

text \<open>
  \<^verbatim>\<open>f.interpolate(t, scale_factor=s, mode='nearest')\<close>: the sizes become \<open>\<lfloor>h * s\<rfloor>\<close> and
  \<open>\<lfloor>w * s\<rfloor>\<close>, and each new entry is the entry at its index divided by \<open>s\<close>.
\<close>

definition interpolate_nearest :: "tensor \<Rightarrow> real \<Rightarrow> error + tensor" where
  "interpolate_nearest t s =
     (if dim_h t = 0 \<or> dim_w t = 0 \<or> nat \<lfloor>real (dim_h t) * s\<rfloor> = 0 \<or> nat \<lfloor>real (dim_w t) * s\<rfloor> = 0
      then Inl RuntimeError
      else Inr (t\<lparr>dim_h := nat \<lfloor>real (dim_h t) * s\<rfloor>, dim_w := nat \<lfloor>real (dim_w t) * s\<rfloor>,
                 elem := (\<lambda>n c i j. elem t n c (min (nat \<lfloor>real i / s\<rfloor>) (dim_h t - 1))
                                            (min (nat \<lfloor>real j / s\<rfloor>) (dim_w t - 1)))\<rparr>))"

text \<open>The parameters of one convolution block: weights, bias and normalisation.\<close>

record conv_params =
  weight :: entries
  bias :: "nat \<Rightarrow> real"
  stat :: "tensor \<Rightarrow> entries"

section \<open>Rescale block\<close>

record RescaleBlock =
  scale :: real
  conv_layers :: "layer list list"

text \<open>
  The layers of the stage \<^verbatim>\<open>conv_%d\<close> of \<^verbatim>\<open>RescaleBlock.__init__\<close>; the booleans
  \<^verbatim>\<open>scale > 1\<close> and \<^verbatim>\<open>scale < 1\<close> count as 1 and 0 in the exponents.
\<close>

definition conv_stage :: "real \<Rightarrow> nat \<Rightarrow> bool \<Rightarrow> (nat \<Rightarrow> conv_params) \<Rightarrow> nat \<Rightarrow> layer list" where
  "conv_stage scale' base_channels use_bias ps i =
     (let in_channel_power = (if scale' > 1 then 1 else 0);
          out_channel_power = (if scale' < 1 then 1 else 0)
      in [ReflectionPad2d 1,
          SpectralNormConv2d (base_channels * 2 ^ (i + in_channel_power))
                 (base_channels * 2 ^ (i + out_channel_power)) 3
                 (weight (ps i)) (if use_bias then bias (ps i) else (\<lambda>out. 0)),
          BatchNorm2d (base_channels * 2 ^ (i + out_channel_power)) (stat (ps i)),
          LeakyReLU (2 / 10)])"

text \<open>
  The constructor builds the stages one by one (from the last to the first unless
  \<^verbatim>\<open>scale < 1\<close>: every stage that cannot be built raises the same exception), and lists
  them from the last to the first when \<^verbatim>\<open>scale > 1\<close>.
\<close>

definition RescaleBlock_init ::
  "nat \<Rightarrow> real \<Rightarrow> nat \<Rightarrow> bool \<Rightarrow> (nat \<Rightarrow> conv_params) \<Rightarrow> error + RescaleBlock" where
  "RescaleBlock_init n_layers scale' base_channels use_bias ps =
     and_then (collect (map (\<lambda>i. nn_Sequential (conv_stage scale' base_channels use_bias ps i))
                          [0..<n_layers])) (\<lambda>stages.
       Inr \<lparr>scale = scale', conv_layers = (if scale' > 1 then rev stages else stages)\<rparr>)"

text \<open>
  The loop of \<^verbatim>\<open>RescaleBlock.forward\<close> over \<^verbatim>\<open>enumerate(self.conv_layers)\<close>. The index
  \<^verbatim>\<open>pyramid[-i - 2]\<close> is in range when \<open>i + 2 \<le> length pyramid\<close>, and a pyramid that is
  \<^verbatim>\<open>None\<close> cannot be indexed.
\<close>

fun RescaleBlock_loop ::
  "bool \<Rightarrow> real \<Rightarrow> tensor list option \<Rightarrow> bool \<Rightarrow> bool \<Rightarrow> layer list list \<Rightarrow> nat \<Rightarrow> tensor
     \<Rightarrow> tensor list \<Rightarrow> error + tensor \<times> tensor list" where
  "RescaleBlock_loop tr sc pyramid return_all_scales skip' [] i feature_map all_scales =
     Inr (feature_map, all_scales)"
| "RescaleBlock_loop tr sc pyramid return_all_scales skip' (conv_layer # rest) i feature_map all_scales =
     and_then (if sc > 1 then interpolate_nearest feature_map sc else Inr feature_map) (\<lambda>fm1.
     and_then (sequential tr conv_layer fm1) (\<lambda>fm2.
     and_then (if skip'
               then (case pyramid of
                       None \<Rightarrow> Inl TypeError
                     | Some p \<Rightarrow> if i + 2 \<le> length p
                                then binop (+) fm2 (p ! (length p - (i + 2)))
                                else Inl IndexError)
               else Inr fm2) (\<lambda>fm3.
     and_then (if sc < 1 then max_pool fm3 else Inr fm3) (\<lambda>fm4.
       RescaleBlock_loop tr sc pyramid return_all_scales skip' rest (Suc i) fm4
         (if return_all_scales then all_scales @ [fm4] else all_scales)))))"

definition RescaleBlock_forward ::
  "bool \<Rightarrow> RescaleBlock \<Rightarrow> tensor \<Rightarrow> tensor list option \<Rightarrow> bool \<Rightarrow> bool
     \<Rightarrow> error + tensor \<times> tensor list option" where
  "RescaleBlock_forward tr self input_tensor pyramid return_all_scales skip' =
     and_then (RescaleBlock_loop tr (scale self) pyramid return_all_scales skip' (conv_layers self) 0
                 input_tensor (if return_all_scales then [input_tensor] else []))
       (\<lambda>(feature_map, all_scales).
          Inr (feature_map, if return_all_scales then Some all_scales else None))"

text \<open>
  A downscale block followed by an upscale block with the same number of stages and base
  channels, the second fusing the pyramid of the first.
\<close>

definition down_then_up ::
  "bool \<Rightarrow> nat \<Rightarrow> nat \<Rightarrow> (nat \<Rightarrow> conv_params) \<Rightarrow> (nat \<Rightarrow> conv_params) \<Rightarrow> tensor \<Rightarrow> error + tensor" where
  "down_then_up tr n base_channels ps_down ps_up input_tensor =
     and_then (RescaleBlock_init n (1 / 2) base_channels True ps_down) (\<lambda>downscale.
     and_then (RescaleBlock_init n 2 base_channels True ps_up) (\<lambda>upscale.
     and_then (RescaleBlock_forward tr downscale input_tensor None True False)
       (\<lambda>(feature_map, downscales).
     and_then (RescaleBlock_forward tr upscale feature_map downscales False True)
       (\<lambda>(output_tensor, unused).
       Inr output_tensor))))"

section \<open>Residual block and generator\<close>

definition ResnetBlock_init ::
  "nat \<Rightarrow> bool \<Rightarrow> (nat \<Rightarrow> conv_params) \<Rightarrow> error + layer list" where
  "ResnetBlock_init dim' use_bias ps =
     nn_Sequential
       [SpectralNormConv2d dim' (dim' div 4) 1 (weight (ps 0))
          (if use_bias then bias (ps 0) else (\<lambda>out. 0)),
        BatchNorm2d (dim' div 4) (stat (ps 0)), LeakyReLU (2 / 10), ReflectionPad2d 1,
        SpectralNormConv2d (dim' div 4) (dim' div 4) 3 (weight (ps 1))
          (if use_bias then bias (ps 1) else (\<lambda>out. 0)),
        BatchNorm2d (dim' div 4) (stat (ps 1)), LeakyReLU (2 / 10),
        SpectralNormConv2d (dim' div 4) dim' 1 (weight (ps 2))
          (if use_bias then bias (ps 2) else (\<lambda>out. 0)),
        BatchNorm2d dim' (stat (ps 2))]"

definition ResnetBlock_forward :: "bool \<Rightarrow> layer list \<Rightarrow> tensor \<Rightarrow> error + tensor" where
  "ResnetBlock_forward tr conv_block input_tensor =
     and_then (sequential tr conv_block input_tensor) (\<lambda>y. binop (+) input_tensor y)"

fun bottleneck :: "bool \<Rightarrow> layer list list \<Rightarrow> tensor \<Rightarrow> error + tensor" where
  "bottleneck tr [] t = Inr t"
| "bottleneck tr (block # blocks) t = and_then (ResnetBlock_forward tr block t) (bottleneck tr blocks)"

record gen_params =
  entry_params :: conv_params
  down_params :: "nat \<Rightarrow> conv_params"
  res_params :: "nat \<Rightarrow> nat \<Rightarrow> conv_params"
  up_params :: "nat \<Rightarrow> conv_params"
  final_params :: conv_params

text \<open>
  The generator: its skip flag, its blocks, and the mode of the module (\<^verbatim>\<open>nn.Module\<close>
  starts in training mode).
\<close>

record Generator =
  skip :: bool
  entry_block :: "layer list"
  downscale_block :: RescaleBlock
  bottleneck_block :: "layer list list"
  upscale_block :: RescaleBlock
  final_block :: "layer list"
  training :: bool

definition Generator_init ::
  "nat \<Rightarrow> nat \<Rightarrow> nat \<Rightarrow> bool \<Rightarrow> bool \<Rightarrow> gen_params \<Rightarrow> error + Generator" where
  "Generator_init base_channels n_blocks n_downsampling use_bias skip_flag ps =
     and_then (nn_Sequential
                 [ReflectionPad2d 3,
                  SpectralNormConv2d 3 base_channels 7 (weight (entry_params ps))
                    (if use_bias then bias (entry_params ps) else (\<lambda>out. 0)),
                  BatchNorm2d base_channels (stat (entry_params ps)), LeakyReLU (2 / 10)])
       (\<lambda>entry.
     and_then (RescaleBlock_init n_downsampling (1 / 2) base_channels True (down_params ps))
       (\<lambda>downscale.
     and_then (collect (map (\<lambda>b. ResnetBlock_init (base_channels * 2 ^ n_downsampling) use_bias
                                    (res_params ps b)) [0..<n_blocks]))
       (\<lambda>blocks.
     and_then (RescaleBlock_init n_downsampling 2 base_channels True (up_params ps))
       (\<lambda>upscale.
     and_then (nn_Sequential
                 [ReflectionPad2d 3,
                  Conv2d base_channels 3 7 (weight (final_params ps)) (bias (final_params ps)),
                  Tanh])
       (\<lambda>final.
       Inr \<lparr>skip = skip_flag, entry_block = entry, downscale_block = downscale,
            bottleneck_block = blocks, upscale_block = upscale, final_block = final,
            training = True\<rparr>)))))"

definition Generator_forward ::
  "resampler \<Rightarrow> warper \<Rightarrow> Generator \<Rightarrow> tensor \<Rightarrow> nat \<times> nat \<Rightarrow> (real \<times> real) option
     \<Rightarrow> error + tensor" where
  "Generator_forward bil warp self input_tensor output_size random_affine =
     and_then (sequential (training self) (entry_block self) input_tensor) (\<lambda>fm0.
     and_then (case random_affine of
                 None \<Rightarrow> interpolate_size bil fm0 (fst output_size) (snd output_size)
               | Some shifts \<Rightarrow> GeoTransform_forward warp fm0 output_size shifts) (\<lambda>fm1.
     and_then (RescaleBlock_forward (training self) (downscale_block self) fm1 None (skip self) False)
       (\<lambda>(fm2, downscales).
     and_then (bottleneck (training self) (bottleneck_block self) fm2) (\<lambda>fm3.
     and_then (RescaleBlock_forward (training self) (upscale_block self) fm3 downscales False (skip self))
       (\<lambda>(fm4, unused).
       sequential (training self) (final_block self) fm4)))))"

section \<open>Properties of the loss modules\<close>

lemma bdim_same: "bdim a a = Some a"
  by (simp add: bdim_def)

lemma bidx_less: "i < d \<Longrightarrow> bidx d i = i"
  by (auto simp: bidx_def)

lemma shape_eq_iff:
  "shape x = shape y \<longleftrightarrow>
     dim_b x = dim_b y \<and> dim_c x = dim_c y \<and> dim_h x = dim_h y \<and> dim_w x = dim_w y"
  by (simp add: shape_def)

lemma binop_same_shape:
  assumes "shape x = shape y"
  shows "binop f x y = Inr \<lparr>dim_b = dim_b x, dim_c = dim_c x, dim_h = dim_h x, dim_w = dim_w x,
               elem = (\<lambda>n k i j.
                 f (elem x (bidx (dim_b x) n) (bidx (dim_c x) k) (bidx (dim_h x) i) (bidx (dim_w x) j))
                   (elem y (bidx (dim_b x) n) (bidx (dim_c x) k) (bidx (dim_h x) i) (bidx (dim_w x) j)))\<rparr>"
  using assms by (simp add: binop_def shape_eq_iff bdim_same)

lemma tsum_ones_like: "tsum (ones_like t) = real (numel t)"
  by (simp add: tsum_def ones_like_def numel_def)

text \<open>
  C8. With a mask of the shape of prediction and target, \<^verbatim>\<open>WeightedMSELoss.forward\<close>
  returns the sum of the mask-weighted squared error divided by the sum of the mask,
  whatever \<^verbatim>\<open>use_L1\<close> was at construction; with the mask of all ones this is the plain
  mean-squared error of prediction and target.
\<close>

theorem WeightedMSELoss_masked:
  assumes "shape x = shape t" and "shape m = shape x"
  shows "snd (WeightedMSELoss_forward (WeightedMSELoss_init use_L1) x t (Some m))
           = Inr (fdiv (masked_sq_error m x t) (tsum m))
       \<and> snd (WeightedMSELoss_forward (WeightedMSELoss_init use_L1) x t (Some (ones_like x)))
           = apply_loss MSELoss x t"
proof -
  from assms have d: "dim_b t = dim_b x" "dim_c t = dim_c x" "dim_h t = dim_h x" "dim_w t = dim_w x"
    by (simp_all add: shape_eq_iff)
  have general: "snd (WeightedMSELoss_forward (WeightedMSELoss_init use_L1) x t (Some m'))
           = Inr (fdiv (masked_sq_error m' x t) (tsum m'))" if "shape m' = shape x" for m'
  proof -
    from that have d': "dim_b m' = dim_b x" "dim_c m' = dim_c x" "dim_h m' = dim_h x" "dim_w m' = dim_w x"
      by (simp_all add: shape_eq_iff)
    show ?thesis
      unfolding WeightedMSELoss_forward_def masked_sq_error_def
      apply (simp add: and_then_def binop_inplace_def binop_def bdim_same d d' shape_def tsum_def)
      apply (rule arg_cong [where f = "\<lambda>s. fdiv s _"])
      apply (intro sum.cong refl)
      apply (simp add: bidx_less mult.commute)
      done
  qed
  have ones: "shape (ones_like x) = shape x"
    by (simp add: ones_like_def shape_def)
  have "masked_sq_error (ones_like x) x t =
        tsum \<lparr>dim_b = dim_b x, dim_c = dim_c x, dim_h = dim_h x, dim_w = dim_w x,
               elem = (\<lambda>n k i j.
                 (elem x (bidx (dim_b x) n) (bidx (dim_c x) k) (bidx (dim_h x) i) (bidx (dim_w x) j) -
                   elem t (bidx (dim_b x) n) (bidx (dim_c x) k) (bidx (dim_h x) i) (bidx (dim_w x) j))\<^sup>2)\<rparr>"
    unfolding masked_sq_error_def tsum_def
    apply simp
    apply (intro sum.cong refl)
    apply (simp add: bidx_less ones_like_def power2_commute)
    done
  then have "snd (WeightedMSELoss_forward (WeightedMSELoss_init use_L1) x t (Some (ones_like x)))
           = apply_loss MSELoss x t"
    using general [OF ones] assms(1)
    by (simp add: binop_same_shape and_then_def mean_def tsum_ones_like numel_def)
  with general [OF assms(2)] show ?thesis by simp
qed

theorem WeightedMSELoss_masked_witness:
  "snd (WeightedMSELoss_forward (WeightedMSELoss_init True)
          \<lparr>dim_b = 1, dim_c = 1, dim_h = 1, dim_w = 2, elem = (\<lambda>n c i j. if j = 0 then 1 else 3)\<rparr>
          \<lparr>dim_b = 1, dim_c = 1, dim_h = 1, dim_w = 2, elem = (\<lambda>n c i j. 0)\<rparr>
          (Some \<lparr>dim_b = 1, dim_c = 1, dim_h = 1, dim_w = 2, elem = (\<lambda>n c i j. if j = 0 then 1 else 0)\<rparr>))
     = Inr (Fin 1)"
  using WeightedMSELoss_masked [of
          "\<lparr>dim_b = 1, dim_c = 1, dim_h = 1, dim_w = 2, elem = (\<lambda>n c i j. if j = 0 then 1 else 3)\<rparr>"
          "\<lparr>dim_b = 1, dim_c = 1, dim_h = 1, dim_w = 2, elem = (\<lambda>n c i j. 0)\<rparr>"
          "\<lparr>dim_b = 1, dim_c = 1, dim_h = 1, dim_w = 2, elem = (\<lambda>n c i j. if j = 0 then 1 else 0)\<rparr>" True]
  by (simp add: shape_def masked_sq_error_def tsum_def fdiv_def lessThan_Suc numeral_2_eq_2)

text \<open>
  C3. \<^verbatim>\<open>MultiScaleLoss.__init__\<close> stores \<^verbatim>\<open>mse\<close> only, so the first pass of the loop of
  \<^verbatim>\<open>forward\<close> reads the missing attribute \<^verbatim>\<open>scale_factor\<close>: on every non-empty
  scale-weight vector the call raises AttributeError and returns no loss.
\<close>

theorem MultiScaleLoss_forward_raises:
  "snd (MultiScaleLoss_forward bil MultiScaleLoss_init input_tensor target_tensor (scale_weight # rest))
     = Inl AttributeError"
  by (simp add: MultiScaleLoss_forward_def MultiScaleLoss_init_def getattr_def and_then_def)

text \<open>
  C10. The forward calls of \<^verbatim>\<open>WeightedMSELoss\<close> and \<^verbatim>\<open>MultiScaleLoss\<close> leave the module
  as it was. \<^verbatim>\<open>GANLoss.forward\<close> stores the label map it builds in the attribute
  \<^verbatim>\<open>label_tensor\<close> of the module, where it stays until the next call replaces it, and
  changes nothing else.
\<close>

theorem loss_modules_state:
  "fst (WeightedMSELoss_forward self input_tensor target_tensor loss_mask) = self
   \<and> fst (MultiScaleLoss_forward bil self input_tensor target_tensor scale_weights) = self
   \<and> fst (GANLoss_forward self d_last_layer is_d_input_real)
       = self(''label_tensor'' \<mapsto> ATensor (label_map d_last_layer is_d_input_real))"
  by (simp add: WeightedMSELoss_forward_def MultiScaleLoss_forward_def GANLoss_forward_def Let_def)

text \<open>
  After one call on a freshly built \<^verbatim>\<open>GANLoss\<close> the module is no longer the one that
  was built: its \<^verbatim>\<open>label_tensor\<close> was \<^verbatim>\<open>None\<close> and is now a tensor of the call.
\<close>

theorem GANLoss_forward_keeps_label_tensor:
  "fst (GANLoss_forward GANLoss_init
          \<lparr>dim_b = 1, dim_c = 1, dim_h = 1, dim_w = 1, elem = (\<lambda>n c i j. 0)\<rparr> True)
     \<noteq> GANLoss_init
   \<and> GANLoss_init ''label_tensor'' = Some ANone
   \<and> fst (GANLoss_forward GANLoss_init
          \<lparr>dim_b = 1, dim_c = 1, dim_h = 1, dim_w = 1, elem = (\<lambda>n c i j. 0)\<rparr> True) ''label_tensor''
     = Some (ATensor (label_map \<lparr>dim_b = 1, dim_c = 1, dim_h = 1, dim_w = 1, elem = (\<lambda>n c i j. 0)\<rparr> True))"
proof -
  let ?m = "fst (GANLoss_forward GANLoss_init
          \<lparr>dim_b = 1, dim_c = 1, dim_h = 1, dim_w = 1, elem = (\<lambda>n c i j. 0)\<rparr> True)"
  have a: "GANLoss_init ''label_tensor'' = Some ANone"
    by (simp add: GANLoss_init_def)
  have b: "?m ''label_tensor''
     = Some (ATensor (label_map \<lparr>dim_b = 1, dim_c = 1, dim_h = 1, dim_w = 1, elem = (\<lambda>n c i j. 0)\<rparr> True))"
    by (simp add: GANLoss_forward_def Let_def)
  from a b have "?m ''label_tensor'' \<noteq> GANLoss_init ''label_tensor''"
    by simp
  then have "?m \<noteq> GANLoss_init"
    by metis
  with a b show ?thesis
    by simp
qed

section \<open>Properties of double rounding\<close>

lemma round_even_of_int: "round_even (of_int k) = k"
  by (simp add: round_even_def)

lemma round_even_mono: "x \<le> y \<Longrightarrow> round_even x \<le> round_even y"
proof -
  assume le: "x \<le> y"
  have fx: "of_int \<lfloor>x\<rfloor> \<le> x" "x < of_int \<lfloor>x\<rfloor> + 1"
    by linarith+
  have fy: "of_int \<lfloor>y\<rfloor> \<le> y" "y < of_int \<lfloor>y\<rfloor> + 1"
    by linarith+
  have lo: "\<lfloor>y\<rfloor> \<le> round_even y" and hi: "round_even x \<le> \<lfloor>x\<rfloor> + 1"
    by (simp_all add: round_even_def Let_def)
  show ?thesis
  proof (cases "\<lfloor>x\<rfloor> = \<lfloor>y\<rfloor>")
    case True
    with le show ?thesis
      unfolding round_even_def Let_def by auto
  next
    case False
    with floor_mono [OF le] have "\<lfloor>x\<rfloor> + 1 \<le> \<lfloor>y\<rfloor>"
      by simp
    with lo hi show ?thesis
      by linarith
  qed
qed

lemma round_even_minus: "round_even (- x) = - round_even x"
proof (cases "x = of_int \<lfloor>x\<rfloor>")
  case True
  then obtain k where "x = of_int k" ..
  then have "- x = of_int (- k)" by simp
  then show ?thesis
    unfolding \<open>x = of_int k\<close> by (simp only: round_even_of_int)
next
  case False
  have fx: "of_int \<lfloor>x\<rfloor> \<le> x" "x < of_int \<lfloor>x\<rfloor> + 1"
    by linarith+
  from fx(1) False have lt: "of_int \<lfloor>x\<rfloor> < x"
    by (metis less_le)
  have "of_int (- \<lfloor>x\<rfloor> - 1) \<le> - x" "- x < of_int (- \<lfloor>x\<rfloor> - 1) + 1"
    using lt fx(2) by (simp_all only: of_int_diff of_int_minus of_int_1)
  then have fl: "\<lfloor>- x\<rfloor> = - \<lfloor>x\<rfloor> - 1"
    by (rule floor_unique)
  have fr: "- x - of_int (- \<lfloor>x\<rfloor> - 1) = 1 - (x - of_int \<lfloor>x\<rfloor>)"
    by simp
  have "0 < x - of_int \<lfloor>x\<rfloor>"
    using lt by simp
  then show ?thesis
    unfolding round_even_def Let_def fl fr by auto
qed

lemma ulp_pos: "0 < ulp x"
  by (simp add: ulp_def)

lemma ulp_minus: "ulp (- x) = ulp x"
  by (simp add: ulp_def binade_def)

lemma round_double_minus: "round_double (- x) = - round_double x"
  by (simp add: round_double_def ulp_minus round_even_minus)

lemma round_double_nonneg: "0 \<le> x \<Longrightarrow> 0 \<le> round_double x"
proof -
  assume "0 \<le> x"
  then have "0 \<le> x / ulp x"
    using ulp_pos [of x] by simp
  from round_even_mono [OF this] have "0 \<le> round_even (x / ulp x)"
    using round_even_of_int [of 0] by simp
  then show ?thesis
    using ulp_pos [of x] by (simp add: round_double_def)
qed

lemma round_double_nonpos: "x \<le> 0 \<Longrightarrow> round_double x \<le> 0"
  using round_double_nonneg [of "- x"] by (simp add: round_double_minus)


lemma binade_upper:
  assumes "x \<noteq> 0"
  shows "\<bar>x\<bar> < 2 powr (of_int (binade x) + 1)"
proof -
  have "log 2 \<bar>x\<bar> < of_int \<lfloor>log 2 \<bar>x\<bar>\<rfloor> + 1"
    by linarith
  also have "\<dots> \<le> of_int (binade x) + 1"
    by (simp add: binade_def)
  finally have "2 powr log 2 \<bar>x\<bar> < 2 powr (of_int (binade x) + 1)"
    by (simp only: powr_less_cancel_iff one_less_numeral_iff semiring_norm)
  then show ?thesis
    using assms by simp
qed

lemma binade_lower:
  assumes "x \<noteq> 0" "- 1022 < binade x"
  shows "2 powr of_int (binade x) \<le> \<bar>x\<bar>"
proof -
  from assms(2) have "binade x = \<lfloor>log 2 \<bar>x\<bar>\<rfloor>"
    by (simp add: binade_def max_def split: if_splits)
  then have "of_int (binade x) \<le> log 2 \<bar>x\<bar>"
    by simp
  then have "2 powr of_int (binade x) \<le> 2 powr log 2 \<bar>x\<bar>"
    by (simp only: powr_le_cancel_iff one_less_numeral_iff semiring_norm)
  then show ?thesis
    using assms by simp
qed

lemma binade_mono:
  assumes "0 < x" "x \<le> y"
  shows "binade x \<le> binade y"
proof -
  from assms have "log 2 \<bar>x\<bar> \<le> log 2 \<bar>y\<bar>"
    by simp
  then have "\<lfloor>log 2 \<bar>x\<bar>\<rfloor> \<le> \<lfloor>log 2 \<bar>y\<bar>\<rfloor>"
    by (rule floor_mono)
  then show ?thesis
    by (simp add: binade_def)
qed

lemma ulp_times: "2 ^ 53 * ulp x = 2 powr (of_int (binade x) + 1)"
proof -
  have "(2::real) ^ 53 = 2 powr 53"
    by simp
  then have "2 ^ 53 * ulp x = 2 powr (53 + (of_int (binade x) - 52))"
    unfolding ulp_def by (simp only: powr_add)
  then show ?thesis
    by (simp add: algebra_simps)
qed

lemma ulp_times': "2 ^ 52 * ulp x = 2 powr of_int (binade x)"
proof -
  have "(2::real) ^ 52 = 2 powr 52"
    by simp
  then have "2 ^ 52 * ulp x = 2 powr (52 + (of_int (binade x) - 52))"
    unfolding ulp_def by (simp only: powr_add)
  then show ?thesis
    by simp
qed

lemma round_double_upper:
  assumes "0 < x"
  shows "round_double x \<le> 2 powr (of_int (binade x) + 1)"
proof -
  from binade_upper [of x] assms have "x < 2 powr (of_int (binade x) + 1)"
    by simp
  then have "x < 2 ^ 53 * ulp x"
    by (simp only: ulp_times)
  then have "x / ulp x < 2 ^ 53"
    using ulp_pos [of x] by (simp only: pos_divide_less_eq)
  then have "x / ulp x \<le> of_int (2 ^ 53)"
    by simp
  from round_even_mono [OF this] have "round_even (x / ulp x) \<le> 2 ^ 53"
    by (simp only: round_even_of_int)
  then have "of_int (round_even (x / ulp x)) \<le> (2 ^ 53 :: real)"
    by (metis of_int_le_iff of_int_numeral of_int_power)
  then have "of_int (round_even (x / ulp x)) * ulp x \<le> 2 ^ 53 * ulp x"
    using ulp_pos [of x] by (simp only: mult_le_cancel_right_pos)
  then have "of_int (round_even (x / ulp x)) * ulp x \<le> 2 powr (of_int (binade x) + 1)"
    by (simp only: ulp_times)
  then show ?thesis
    using assms by (simp add: round_double_def)
qed

lemma round_double_lower:
  assumes "0 < x" "- 1022 < binade x"
  shows "2 powr of_int (binade x) \<le> round_double x"
proof -
  from binade_lower [of x] assms have "2 powr of_int (binade x) \<le> x"
    by simp
  then have "2 ^ 52 * ulp x \<le> x"
    by (simp only: ulp_times')
  then have "2 ^ 52 \<le> x / ulp x"
    using ulp_pos [of x] by (simp only: pos_le_divide_eq)
  then have "of_int (2 ^ 52) \<le> x / ulp x"
    by simp
  from round_even_mono [OF this] have "2 ^ 52 \<le> round_even (x / ulp x)"
    by (simp only: round_even_of_int)
  then have "(2 ^ 52 :: real) \<le> of_int (round_even (x / ulp x))"
    by (metis of_int_le_iff of_int_numeral of_int_power)
  then have "2 ^ 52 * ulp x \<le> of_int (round_even (x / ulp x)) * ulp x"
    using ulp_pos [of x] by (simp only: mult_le_cancel_right_pos)
  then have "2 powr of_int (binade x) \<le> of_int (round_even (x / ulp x)) * ulp x"
    by (simp only: ulp_times')
  then show ?thesis
    using assms by (simp add: round_double_def)
qed

lemma round_double_mono_pos:
  assumes "0 < x" "x \<le> y"
  shows "round_double x \<le> round_double y"
proof (cases "binade x = binade y")
  case True
  then have u: "ulp x = ulp y"
    by (simp add: ulp_def)
  from assms have "x / ulp y \<le> y / ulp y"
    using ulp_pos [of y] by (simp add: divide_right_mono)
  from round_even_mono [OF this]
  have "of_int (round_even (x / ulp y)) * ulp y \<le> of_int (round_even (y / ulp y)) * ulp y"
    using ulp_pos [of y] by simp
  then show ?thesis
    using assms by (simp add: round_double_def u)
next
  case False
  with binade_mono [OF assms] have lt: "binade x + 1 \<le> binade y"
    by simp
  have "- 1022 \<le> binade x"
    by (simp add: binade_def)
  with lt have "- 1022 < binade y"
    by simp
  with assms have "2 powr of_int (binade y) \<le> round_double y"
    by (intro round_double_lower) simp_all
  moreover have "round_double x \<le> 2 powr (of_int (binade x) + 1)"
    using assms by (intro round_double_upper)
  moreover have "(2::real) powr (of_int (binade x) + 1) \<le> 2 powr of_int (binade y)"
  proof -
    from lt have "(of_int (binade x) + 1 :: real) \<le> of_int (binade y)"
      by (metis of_int_1 of_int_add of_int_le_iff)
    then show ?thesis
      by (simp only: powr_le_cancel_iff one_less_numeral_iff semiring_norm)
  qed
  ultimately show ?thesis
    by linarith
qed

lemma round_double_mono:
  assumes "x \<le> y"
  shows "round_double x \<le> round_double y"
proof -
  consider "0 < x" | "x \<le> 0" "0 \<le> y" | "y < 0"
    by linarith
  then show ?thesis
  proof cases
    case 1
    from 1 assms show ?thesis
      by (rule round_double_mono_pos)
  next
    case 2
    then show ?thesis
      using round_double_nonpos [of x] round_double_nonneg [of y] by simp
  next
    case 3
    with assms have "0 < - y" "- y \<le> - x"
      by simp_all
    from round_double_mono_pos [OF this] show ?thesis
      by (simp add: round_double_minus)
  qed
qed

lemma round_double_scaled:
  assumes "2 ^ 52 \<le> \<bar>x\<bar> * 2 ^ n" "\<bar>x\<bar> * 2 ^ n < 2 ^ 53" "n \<le> 1074"
  shows "round_double x = of_int (round_even (x * 2 ^ n)) / 2 ^ n"
proof -
  have x0: "x \<noteq> 0"
    using assms(1) by auto
  have p: "(2::real) powr of_int (52 - int n) = 2 ^ 52 / 2 ^ n"
    by (simp add: powr_diff powr_realpow)
  have q: "(2::real) powr (of_int (52 - int n) + 1) = 2 ^ 53 / 2 ^ n"
    by (simp add: powr_diff powr_add powr_realpow)
  have "2 powr of_int (52 - int n) \<le> \<bar>x\<bar>"
    unfolding p using assms(1) by (simp add: pos_divide_le_eq)
  then have lo: "of_int (52 - int n) \<le> log 2 \<bar>x\<bar>"
    using x0 by (simp add: le_log_iff)
  have "\<bar>x\<bar> < 2 powr (of_int (52 - int n) + 1)"
    unfolding q using assms(2) by (simp add: pos_less_divide_eq)
  then have hi: "log 2 \<bar>x\<bar> < of_int (52 - int n) + 1"
    using x0 by (simp add: log_less_iff)
  from lo hi have "\<lfloor>log 2 \<bar>x\<bar>\<rfloor> = 52 - int n"
    by (rule floor_unique)
  then have b: "binade x = 52 - int n"
    using assms(3) by (simp add: binade_def)
  have u: "ulp x = 1 / 2 ^ n"
    unfolding ulp_def b by (simp add: powr_minus powr_realpow inverse_eq_divide)
  show ?thesis
    using x0 by (simp add: round_double_def u)
qed

section \<open>Properties of the scale count\<close>

lemma round_double_1: "round_double 1 = 1"
  using round_double_scaled [of 1 52] by (simp add: round_even_def)

lemma round_double_2: "round_double 2 = 2"
  using round_double_scaled [of 2 51] by (simp add: round_even_def)

lemma round_double_4: "round_double 4 = 4"
  using round_double_scaled [of 4 50] by (simp add: round_even_def)

lemma round_double_16: "round_double 16 = 16"
  using round_double_scaled [of 16 48] by (simp add: round_even_def)

lemma round_double_sixteenth: "round_double (1 / 16) = 1 / 16"
  using round_double_scaled [of "1 / 16" 56] by (simp add: round_even_def)

lemma crop_ratio_32: "crop_ratio 32 = 2"
  using round_double_scaled [of 32 47]
  by (simp add: crop_ratio_def float_div_def float_mul_def float_of_int_def round_even_def
      round_double_2)

lemma crop_ratio_64: "crop_ratio 64 = 4"
  using round_double_scaled [of 64 46]
  by (simp add: crop_ratio_def float_div_def float_mul_def float_of_int_def round_even_def
      round_double_4)

lemma crop_ratio_256: "crop_ratio 256 = 16"
  using round_double_scaled [of 256 44]
  by (simp add: crop_ratio_def float_div_def float_mul_def float_of_int_def round_even_def
      round_double_16)

lemma crop_ratio_2000: "crop_ratio 2000 = 125"
  using round_double_scaled [of 2000 42] round_double_scaled [of 125 46]
  by (simp add: crop_ratio_def float_div_def float_mul_def float_of_int_def round_even_def)

lemma crop_ratio_mono: "m \<le> m' \<Longrightarrow> crop_ratio m \<le> crop_ratio m'"
proof -
  assume "m \<le> m'"
  then have "round_double (real m) \<le> round_double (real m')"
    by (intro round_double_mono) simp
  then have "round_double (round_double (real m) * 1) \<le> round_double (round_double (real m') * 1)"
    by (intro round_double_mono) simp
  then have "round_double (round_double (real m) * 1) / 16
      \<le> round_double (round_double (real m') * 1) / 16"
    by simp
  then show ?thesis
    unfolding crop_ratio_def float_div_def float_mul_def float_of_int_def of_int_of_nat_eq
    by (rule round_double_mono)
qed

lemma crop_ratio_pos: "0 < m \<Longrightarrow> 0 < crop_ratio m"
proof -
  assume "0 < m"
  then have "crop_ratio 1 \<le> crop_ratio m"
    by (intro crop_ratio_mono) simp
  moreover have "crop_ratio 1 = 1 / 16"
    by (simp add: crop_ratio_def float_div_def float_mul_def float_of_int_def round_double_1
        round_double_sixteenth)
  ultimately show ?thesis
    by simp
qed

lemma n_scales_returns:
  assumes "0 < min h w" "0 < sf" "np_log sf \<noteq> 0"
    and "\<not> is_inf (float_div (np_log (crop_ratio (min h w))) (np_log sf))"
  shows "MultiScaleDiscriminator_n_scales np_log (h, w) mx sf
           = Inr (min \<lceil>float_div (np_log (crop_ratio (min h w))) (np_log sf)\<rceil> mx)"
proof -
  from crop_ratio_pos [OF assms(1)] have "crop_ratio (min h w) \<noteq> 0"
    by simp
  with assms show ?thesis
    by (simp add: MultiScaleDiscriminator_n_scales_def Let_def)
qed

lemma n_scales_bounded:
  "MultiScaleDiscriminator_n_scales np_log (h, w) mx sf = Inr k \<Longrightarrow> k \<le> mx"
  by (auto simp: MultiScaleDiscriminator_n_scales_def Let_def split: if_splits)

lemma n_scales_Inr:
  assumes "MultiScaleDiscriminator_n_scales np_log (h, w) mx sf = Inr k" "0 < sf"
  shows "0 < crop_ratio (min h w)
       \<and> k = min \<lceil>float_div (np_log (crop_ratio (min h w))) (np_log sf)\<rceil> mx"
proof -
  have "0 \<le> crop_ratio (min h w)"
    using crop_ratio_mono [of 0 "min h w"]
    by (simp add: crop_ratio_def float_div_def float_mul_def float_of_int_def round_double_def)
  with assms show ?thesis
    by (auto simp: MultiScaleDiscriminator_n_scales_def Let_def split: if_splits)
qed

lemma n_scales_monotone:
  assumes mono: "\<forall>a b. 0 < a \<and> a \<le> b \<longrightarrow> np_log a \<le> np_log b"
    and sf: "0 < np_log sf" "0 < sf"
    and le: "min h w \<le> min h' w'"
    and k: "MultiScaleDiscriminator_n_scales np_log (h, w) mx sf = Inr k"
    and k': "MultiScaleDiscriminator_n_scales np_log (h', w') mx sf = Inr k'"
  shows "k \<le> k'"
proof -
  from n_scales_Inr [OF k sf(2)] have x: "0 < crop_ratio (min h w)"
    and kk: "k = min \<lceil>float_div (np_log (crop_ratio (min h w))) (np_log sf)\<rceil> mx"
    by simp_all
  from n_scales_Inr [OF k' sf(2)]
  have kk': "k' = min \<lceil>float_div (np_log (crop_ratio (min h' w'))) (np_log sf)\<rceil> mx"
    by simp
  from crop_ratio_mono [OF le] x mono
  have "np_log (crop_ratio (min h w)) \<le> np_log (crop_ratio (min h' w'))"
    by blast
  then have "np_log (crop_ratio (min h w)) / np_log sf \<le> np_log (crop_ratio (min h' w')) / np_log sf"
    using sf(1) by (simp add: divide_right_mono)
  then have "float_div (np_log (crop_ratio (min h w))) (np_log sf)
      \<le> float_div (np_log (crop_ratio (min h' w'))) (np_log sf)"
    unfolding float_div_def by (rule round_double_mono)
  then have "\<lceil>float_div (np_log (crop_ratio (min h w))) (np_log sf)\<rceil>
      \<le> \<lceil>float_div (np_log (crop_ratio (min h' w'))) (np_log sf)\<rceil>"
    by (rule ceiling_mono)
  then show ?thesis
    unfolding kk kk' by simp
qed

lemma not_inf_small: "\<bar>y\<bar> \<le> 4 \<Longrightarrow> \<not> is_inf y"
proof -
  assume "\<bar>y\<bar> \<le> 4"
  moreover have "(4::real) < 2 ^ 1024"
    by simp
  ultimately show ?thesis
    unfolding is_inf_def by linarith
qed

lemma float_div_multiple:
  assumes "b \<noteq> 0"
  shows "float_div (2 * b) b = 2" "float_div (4 * b) b = 4"
    "float_div b (- b) = - 1" "float_div (2 * b) (- b) = - 2"
proof -
  have "round_double (- 1) = - 1" "round_double (- 2) = - 2"
    using round_double_minus [of 1] round_double_minus [of 2]
    by (simp_all add: round_double_1 round_double_2)
  with assms show "float_div (2 * b) b = 2" "float_div (4 * b) b = 4"
    "float_div b (- b) = - 1" "float_div (2 * b) (- b) = - 2"
    by (simp_all add: float_div_def round_double_2 round_double_4)
qed

lemma n_scales_256:
  assumes "np_log 16 = 4 * np_log 2" "np_log 2 \<noteq> 0"
  shows "MultiScaleDiscriminator_n_scales np_log (256, 256) 9 2 = Inr 4"
proof -
  have q: "float_div (np_log 16) (np_log 2) = 4"
    unfolding assms(1) using assms(2) by (rule float_div_multiple)
  have "\<not> is_inf (float_div (np_log (crop_ratio (min 256 256))) (np_log 2))"
    by (simp add: crop_ratio_256 q not_inf_small)
  from n_scales_returns [of 256 256 2 np_log, OF _ _ assms(2) this, of 9]
  show ?thesis
    by (simp add: crop_ratio_256 q)
qed

text \<open>The logarithm rounded to the nearest double, at 2, 4, 16 and \<open>1/2\<close>.\<close>

lemma ln_2_bounds: "1 / 2 \<le> ln (2::real)" "ln (2::real) < 1"
proof -
  have "(exp (1 / 2 :: real))\<^sup>2 = exp 1"
    by (simp add: exp_double [symmetric])
  also have "\<dots> \<le> 3"
    by (rule exp_le)
  also have "\<dots> \<le> (2::real)\<^sup>2"
    by simp
  finally have "exp (1 / 2 :: real) \<le> 2"
    by (rule power2_le_imp_le) simp
  then have "ln (exp (1 / 2 :: real)) \<le> ln 2"
    by (subst ln_le_cancel_iff) simp_all
  then show "1 / 2 \<le> ln (2::real)"
    by simp
  show "ln (2::real) < 1"
    by (rule ln_2_less_1)
qed

lemma round_double_ln_2: "round_double (ln 2) = of_int (round_even (ln 2 * 2 ^ 53)) / 2 ^ 53"
  using ln_2_bounds by (intro round_double_scaled) simp_all

lemma nearest_log_2: "nearest_log 2 = of_int (round_even (ln 2 * 2 ^ 53)) / 2 ^ 53"
  unfolding nearest_log_def by (rule round_double_ln_2)

lemma nearest_log_4: "nearest_log 4 = 2 * nearest_log 2"
proof -
  have l: "ln (4::real) = 2 * ln 2"
    using ln_realpow [of 2 2] by simp
  have a: "round_double (2 * ln 2) = of_int (round_even (2 * ln 2 * 2 ^ 52)) / 2 ^ 52"
    using ln_2_bounds by (intro round_double_scaled) simp_all
  have b: "2 * ln 2 * 2 ^ 52 = ln (2::real) * 2 ^ 53"
    by simp
  show ?thesis
    unfolding nearest_log_def l a b round_double_ln_2 by simp
qed

lemma nearest_log_16: "nearest_log 16 = 4 * nearest_log 2"
proof -
  have l: "ln (16::real) = 4 * ln 2"
    using ln_realpow [of 2 4] by simp
  have a: "round_double (4 * ln 2) = of_int (round_even (4 * ln 2 * 2 ^ 51)) / 2 ^ 51"
    using ln_2_bounds by (intro round_double_scaled) simp_all
  have b: "4 * ln 2 * 2 ^ 51 = ln (2::real) * 2 ^ 53"
    by simp
  show ?thesis
    unfolding nearest_log_def l a b round_double_ln_2 by simp
qed

lemma nearest_log_half: "nearest_log (1 / 2) = - nearest_log 2"
  by (simp add: nearest_log_def ln_div round_double_minus)

lemma nearest_log_2_pos: "0 < nearest_log 2"
proof -
  have "of_int (2 ^ 52) \<le> ln (2::real) * 2 ^ 53"
    using ln_2_bounds(1) by simp
  from round_even_mono [OF this] have "2 ^ 52 \<le> round_even (ln 2 * 2 ^ 53)"
    by (simp only: round_even_of_int)
  then have "0 < round_even (ln 2 * 2 ^ 53)"
    by simp
  then show ?thesis
    by (simp add: nearest_log_2)
qed

lemma nearest_log_mono: "0 < a \<and> a \<le> b \<longrightarrow> nearest_log a \<le> nearest_log b"
  unfolding nearest_log_def by (auto intro: round_double_mono)

lemma n_scales_nearest_log_64:
  "MultiScaleDiscriminator_n_scales nearest_log (64, 100) 9 2 = Inr 2"
proof -
  have q: "float_div (nearest_log 4) (nearest_log 2) = 2"
    unfolding nearest_log_4 using nearest_log_2_pos by (intro float_div_multiple) simp
  have "\<not> is_inf (float_div (nearest_log (crop_ratio (min 64 100))) (nearest_log 2))"
    by (simp add: crop_ratio_64 q not_inf_small)
  from n_scales_returns [of 64 100 2 nearest_log, OF _ _ _ this, of 9] nearest_log_2_pos
  show ?thesis
    by (simp add: crop_ratio_64 q)
qed

lemma n_scales_nearest_log_half:
  "MultiScaleDiscriminator_n_scales nearest_log (32, 32) 9 (1 / 2) = Inr (- 1)"
  "MultiScaleDiscriminator_n_scales nearest_log (64, 64) 9 (1 / 2) = Inr (- 2)"
proof -
  have b: "nearest_log 2 \<noteq> 0"
    using nearest_log_2_pos by simp
  then have b': "nearest_log (1 / 2) \<noteq> 0"
    by (simp add: nearest_log_half)
  have c1: "\<lceil>- 1 :: real\<rceil> = - 1"
    using ceiling_of_int [of "- 1", where ?'a = real] by simp
  have q: "float_div (nearest_log 2) (nearest_log (1 / 2)) = - 1"
    "float_div (nearest_log 4) (nearest_log (1 / 2)) = - 2"
    unfolding nearest_log_4 nearest_log_half using b by (rule float_div_multiple)+
  have "\<not> is_inf (float_div (nearest_log (crop_ratio (min 32 32))) (nearest_log (1 / 2)))"
    by (simp add: crop_ratio_32 q not_inf_small)
  from n_scales_returns [of 32 32 "1 / 2" nearest_log, OF _ _ b' this, of 9]
  show "MultiScaleDiscriminator_n_scales nearest_log (32, 32) 9 (1 / 2) = Inr (- 1)"
    by (simp add: crop_ratio_32 q c1)
  have "\<not> is_inf (float_div (nearest_log (crop_ratio (min 64 64))) (nearest_log (1 / 2)))"
    by (simp add: crop_ratio_64 q not_inf_small)
  from n_scales_returns [of 64 64 "1 / 2" nearest_log, OF _ _ b' this, of 9]
  show "MultiScaleDiscriminator_n_scales nearest_log (64, 64) 9 (1 / 2) = Inr (- 2)"
    by (simp add: crop_ratio_64 q)
qed

text \<open>
  The rounded quotient can lie above the exact one. With the values that numpy's
  logarithm has at 125 and at 5, the doubles \<open>5436197987035623 / 2 ^ 50\<close> and
  \<open>7248263982714163 / 2 ^ 52\<close>, the quotient of the two doubles rounds to
  \<open>3 + 1 / 2 ^ 51\<close>: the count for \<^verbatim>\<open>real_crop_size = (2000, 2000)\<close>,
  \<^verbatim>\<open>max_n_scales = 9\<close> and \<^verbatim>\<open>scale_factor = 5\<close> is 4, where
  \<open>\<lceil>ln 125 / ln 5\<rceil>\<close> is 3.
\<close>

lemma n_scales_rounded_above_exact:
  assumes "np_log 125 = 5436197987035623 / 2 ^ 50" "np_log 5 = 7248263982714163 / 2 ^ 52"
  shows "MultiScaleDiscriminator_n_scales np_log (2000, 2000) 9 5 = Inr 4"
    and "\<lceil>ln (125::real) / ln 5\<rceil> = 3"
proof -
  have q: "float_div (np_log 125) (np_log 5) = 3 + 1 / 2 ^ 51"
    unfolding assms float_div_def
    using round_double_scaled
      [of "(5436197987035623 / 2 ^ 50) / (7248263982714163 / 2 ^ 52)" 51]
    by (simp add: round_even_def)
  have c: "\<lceil>3 + 1 / 2 ^ 51 :: real\<rceil> = 4"
    by (simp add: ceiling_eq_iff)
  have b: "np_log 5 \<noteq> 0"
    unfolding assms by simp
  have "\<not> is_inf (float_div (np_log (crop_ratio (min 2000 2000))) (np_log 5))"
    by (simp add: crop_ratio_2000 q not_inf_small)
  from n_scales_returns [of 2000 2000 5 np_log, OF _ _ b this, of 9]
  show "MultiScaleDiscriminator_n_scales np_log (2000, 2000) 9 5 = Inr 4"
    by (simp add: crop_ratio_2000 q c)
  have "ln (125::real) = 3 * ln 5"
    using ln_realpow [of 5 3] by simp
  then show "\<lceil>ln (125::real) / ln 5\<rceil> = 3"
    by simp
qed

text \<open>
  C2. The count of \<^verbatim>\<open>MultiScaleDiscriminator.__init__\<close> never exceeds \<^verbatim>\<open>max_n_scales\<close>.
  For a positive smallest crop size, a positive scale factor whose logarithm is not 0
  and a quotient that is not infinite, it is the minimum of \<^verbatim>\<open>max_n_scales\<close> and the
  ceiling of the quotient, in double precision, of the library's logarithms of
  \<^verbatim>\<open>min(real_crop_size) / 16\<close> and of the scale factor. Where the library's
  logarithm is non-decreasing and positive at the scale factor, the count is
  non-decreasing in the smallest crop size. For \<^verbatim>\<open>real_crop_size = (256, 256)\<close>,
  \<^verbatim>\<open>max_n_scales = 9\<close> and \<^verbatim>\<open>scale_factor = 2\<close> the count is 4, the library's
  logarithm of 16 being four times its logarithm of 2.
\<close>

theorem n_scales_rounded_quotient:
  "(MultiScaleDiscriminator_n_scales np_log (h, w) mx sf = Inr k \<longrightarrow> k \<le> mx)
   \<and> (0 < min h w \<and> 0 < sf \<and> np_log sf \<noteq> 0
        \<and> \<not> is_inf (float_div (np_log (crop_ratio (min h w))) (np_log sf)) \<longrightarrow>
      MultiScaleDiscriminator_n_scales np_log (h, w) mx sf
        = Inr (min \<lceil>float_div (np_log (crop_ratio (min h w))) (np_log sf)\<rceil> mx))
   \<and> ((\<forall>a b. 0 < a \<and> a \<le> b \<longrightarrow> np_log a \<le> np_log b) \<and> 0 < np_log sf \<and> 0 < sf
        \<and> min h w \<le> min h' w'
        \<and> MultiScaleDiscriminator_n_scales np_log (h, w) mx sf = Inr k
        \<and> MultiScaleDiscriminator_n_scales np_log (h', w') mx sf = Inr k' \<longrightarrow>
      k \<le> k')
   \<and> (np_log 16 = 4 * np_log 2 \<and> np_log 2 \<noteq> 0 \<longrightarrow>
      MultiScaleDiscriminator_n_scales np_log (256, 256) 9 2 = Inr 4)"
proof (intro conjI impI)
  assume "MultiScaleDiscriminator_n_scales np_log (h, w) mx sf = Inr k"
  then show "k \<le> mx"
    by (rule n_scales_bounded)
next
  assume "0 < min h w \<and> 0 < sf \<and> np_log sf \<noteq> 0
        \<and> \<not> is_inf (float_div (np_log (crop_ratio (min h w))) (np_log sf))"
  then show "MultiScaleDiscriminator_n_scales np_log (h, w) mx sf
        = Inr (min \<lceil>float_div (np_log (crop_ratio (min h w))) (np_log sf)\<rceil> mx)"
    by (intro n_scales_returns) simp_all
next
  assume "(\<forall>a b. 0 < a \<and> a \<le> b \<longrightarrow> np_log a \<le> np_log b) \<and> 0 < np_log sf \<and> 0 < sf
        \<and> min h w \<le> min h' w'
        \<and> MultiScaleDiscriminator_n_scales np_log (h, w) mx sf = Inr k
        \<and> MultiScaleDiscriminator_n_scales np_log (h', w') mx sf = Inr k'"
  then show "k \<le> k'"
    using n_scales_monotone [of np_log sf h w h' w' mx k k'] by blast
next
  assume "np_log 16 = 4 * np_log 2 \<and> np_log 2 \<noteq> 0"
  then show "MultiScaleDiscriminator_n_scales np_log (256, 256) 9 2 = Inr 4"
    by (intro n_scales_256) simp_all
qed

theorem n_scales_rounded_quotient_witness:
  "MultiScaleDiscriminator_n_scales nearest_log (64, 100) 9 2 = Inr 2
   \<and> MultiScaleDiscriminator_n_scales nearest_log (256, 256) 9 2 = Inr 4
   \<and> (2::int) \<le> 9 \<and> (2::int) \<le> 4"
  using n_scales_rounded_quotient [of nearest_log 64 100 9 2 2 256 256 4]
    n_scales_nearest_log_64 nearest_log_16 nearest_log_2_pos
  by simp

text \<open>
  With the logarithm rounded to the nearest double, the count for \<^verbatim>\<open>(256, 256)\<close>, 9 and
  2 is 4 and not 5; and with the scale factor \<open>1/2\<close> the count falls from \<open>-1\<close> to \<open>-2\<close>
  when the crop grows from 32 to 64.
\<close>

theorem n_scales_256_is_4_and_not_monotone:
  "MultiScaleDiscriminator_n_scales nearest_log (256, 256) 9 2 = Inr 4
   \<and> MultiScaleDiscriminator_n_scales nearest_log (256, 256) 9 2 \<noteq> Inr 5
   \<and> MultiScaleDiscriminator_n_scales nearest_log (32, 32) 9 (1/2) = Inr (- 1)
   \<and> MultiScaleDiscriminator_n_scales nearest_log (64, 64) 9 (1/2) = Inr (- 2)"
proof -
  have "MultiScaleDiscriminator_n_scales nearest_log (256, 256) 9 2 = Inr 4"
    using nearest_log_2_pos by (intro n_scales_256 nearest_log_16) simp
  then show ?thesis
    using n_scales_nearest_log_half by simp
qed

section \<open>Properties of the geometric transform\<close>

lemma abs_ceiling_nonneg: "0 \<le> x \<Longrightarrow> nat \<bar>\<lceil>x::real\<rceil>\<bar> = nat \<lceil>x\<rceil>"
proof -
  assume "0 \<le> x"
  then have "0 \<le> \<lceil>x\<rceil>" by simp
  then show ?thesis by simp
qed

lemma abs_ceiling_nonpos: "x \<le> 0 \<Longrightarrow> nat \<bar>\<lceil>x::real\<rceil>\<bar> = nat \<lfloor>- x\<rfloor>"
proof -
  assume "x \<le> 0"
  then have "\<lceil>x\<rceil> \<le> 0" by (simp add: ceiling_le_iff)
  then have "\<bar>\<lceil>x\<rceil>\<bar> = - \<lceil>x\<rceil>" by simp
  then show ?thesis by (simp add: ceiling_def)
qed

lemma shift_product_nonneg: "0 \<le> shift_product w s"
proof -
  have "0 \<le> round_double (real w)"
    by (rule round_double_nonneg) simp
  then have "0 \<le> round_double (real w) * \<bar>s\<bar>"
    by simp
  then show ?thesis
    unfolding shift_product_def float_mul_def float_of_int_def of_int_of_nat_eq
    by (rule round_double_nonneg)
qed

lemma left_product:
  "float_mul (float_of_int (int w)) s = (if 0 \<le> s then shift_product w s else - shift_product w s)"
proof (cases "0 \<le> s")
  case True
  then show ?thesis
    by (simp add: shift_product_def)
next
  case False
  then have "round_double (real w) * s = - (round_double (real w) * \<bar>s\<bar>)"
    by simp
  with False show ?thesis
    unfolding shift_product_def float_mul_def float_of_int_def of_int_of_nat_eq
    by (simp only: round_double_minus if_False)
qed

lemma right_product:
  "float_mul (float_of_int (- int w)) s = (if s \<le> 0 then shift_product w s else - shift_product w s)"
proof -
  have f: "round_double (of_int (- int w)) = - round_double (real w)"
    by (simp add: round_double_minus)
  show ?thesis
  proof (cases "s \<le> 0")
    case True
    then have "- round_double (real w) * s = round_double (real w) * \<bar>s\<bar>"
      by simp
    with True show ?thesis
      unfolding shift_product_def float_mul_def float_of_int_def f of_int_of_nat_eq
      by (simp only: if_True)
  next
    case False
    then have "- round_double (real w) * s = - (round_double (real w) * \<bar>s\<bar>)"
      by simp
    with False show ?thesis
      unfolding shift_product_def float_mul_def float_of_int_def f of_int_of_nat_eq
      by (simp only: round_double_minus if_False)
  qed
qed

lemma is_inf_minus: "is_inf (- y) = is_inf y"
  by (simp add: is_inf_def)

lemma GeoTransform_pads_overflow:
  assumes "is_inf (shift_product w l) \<or> is_inf (shift_product w r)"
  shows "GeoTransform_pads w (l, r) = Inl OverflowError"
proof -
  have "is_inf (float_mul (float_of_int (int w)) l) = is_inf (shift_product w l)"
    unfolding left_product by (simp add: is_inf_minus)
  moreover have "is_inf (float_mul (float_of_int (- int w)) r) = is_inf (shift_product w r)"
    unfolding right_product by (simp add: is_inf_minus)
  ultimately show ?thesis
    using assms by (simp add: GeoTransform_pads_def Let_def)
qed

lemma GeoTransform_pads_finite:
  assumes "\<not> is_inf (shift_product w l)" "\<not> is_inf (shift_product w r)"
  shows "GeoTransform_pads w (l, r) =
     Inr (if 0 \<le> l then nat \<lceil>shift_product w l\<rceil> else nat \<lfloor>shift_product w l\<rfloor>,
          if r \<le> 0 then nat \<lceil>shift_product w r\<rceil> else nat \<lfloor>shift_product w r\<rfloor>, 0, 0)"
proof -
  have il: "is_inf (float_mul (float_of_int (int w)) l) = is_inf (shift_product w l)"
    unfolding left_product by (simp add: is_inf_minus)
  have ir: "is_inf (float_mul (float_of_int (- int w)) r) = is_inf (shift_product w r)"
    unfolding right_product by (simp add: is_inf_minus)
  have pl: "nat \<bar>\<lceil>float_mul (float_of_int (int w)) l\<rceil>\<bar> =
      (if 0 \<le> l then nat \<lceil>shift_product w l\<rceil> else nat \<lfloor>shift_product w l\<rfloor>)"
  proof (cases "0 \<le> l")
    case True
    with abs_ceiling_nonneg [OF shift_product_nonneg [of w l]] show ?thesis
      by (simp add: left_product)
  next
    case False
    have "- shift_product w l \<le> 0"
      using shift_product_nonneg [of w l] by simp
    from abs_ceiling_nonpos [OF this] False show ?thesis
      by (simp add: left_product)
  qed
  have pr: "nat \<bar>\<lceil>float_mul (float_of_int (- int w)) r\<rceil>\<bar> =
      (if r \<le> 0 then nat \<lceil>shift_product w r\<rceil> else nat \<lfloor>shift_product w r\<rfloor>)"
  proof (cases "r \<le> 0")
    case True
    with abs_ceiling_nonneg [OF shift_product_nonneg [of w r]] show ?thesis
      by (simp add: right_product)
  next
    case False
    have "- shift_product w r \<le> 0"
      using shift_product_nonneg [of w r] by simp
    from abs_ceiling_nonpos [OF this] False show ?thesis
      by (simp add: right_product)
  qed
  show ?thesis
    unfolding GeoTransform_pads_def Let_def fst_conv snd_conv il ir pl pr
    using assms by simp
qed

text \<open>
  C4. \<^verbatim>\<open>GeoTransform.forward\<close> reflect-pads the tensor horizontally before it resamples.
  With \<open>p\<close> the product, in double precision, of the width and the magnitude of a shift:
  the left pad is \<open>\<lceil>p\<rceil>\<close> for a left shift that is not negative and \<open>\<lfloor>p\<rfloor>\<close> for a negative
  one; the right pad is \<open>\<lceil>p\<rceil>\<close> for a right shift that is not positive and \<open>\<lfloor>p\<rfloor>\<close> for a
  positive one. When one of the two products is infinite the call raises OverflowError.
\<close>

theorem GeoTransform_pads_by_sign:
  "(is_inf (shift_product (dim_w x) left_shift) \<or> is_inf (shift_product (dim_w x) right_shift) \<longrightarrow>
      GeoTransform_forward warp x target_size (left_shift, right_shift) = Inl OverflowError)
   \<and> (\<not> is_inf (shift_product (dim_w x) left_shift)
        \<and> \<not> is_inf (shift_product (dim_w x) right_shift) \<longrightarrow>
      GeoTransform_pads (dim_w x) (left_shift, right_shift) =
        Inr (if 0 \<le> left_shift then nat \<lceil>shift_product (dim_w x) left_shift\<rceil>
             else nat \<lfloor>shift_product (dim_w x) left_shift\<rfloor>,
             if right_shift \<le> 0 then nat \<lceil>shift_product (dim_w x) right_shift\<rceil>
             else nat \<lfloor>shift_product (dim_w x) right_shift\<rfloor>, 0, 0)
      \<and> GeoTransform_forward warp x target_size (left_shift, right_shift) =
          and_then
            (reflection_pad
               (if 0 \<le> left_shift then nat \<lceil>shift_product (dim_w x) left_shift\<rceil>
                else nat \<lfloor>shift_product (dim_w x) left_shift\<rfloor>)
               (if right_shift \<le> 0 then nat \<lceil>shift_product (dim_w x) right_shift\<rceil>
                else nat \<lfloor>shift_product (dim_w x) right_shift\<rfloor>) 0 0 x)
            (\<lambda>pad. Inr (grid_sample warp (left_shift, right_shift) target_size pad)))"
proof (intro conjI impI)
  assume "is_inf (shift_product (dim_w x) left_shift) \<or> is_inf (shift_product (dim_w x) right_shift)"
  from GeoTransform_pads_overflow [OF this]
  show "GeoTransform_forward warp x target_size (left_shift, right_shift) = Inl OverflowError"
    by (simp add: GeoTransform_forward_def and_then_def)
next
  assume a: "\<not> is_inf (shift_product (dim_w x) left_shift)
        \<and> \<not> is_inf (shift_product (dim_w x) right_shift)"
  then have p: "GeoTransform_pads (dim_w x) (left_shift, right_shift) =
        Inr (if 0 \<le> left_shift then nat \<lceil>shift_product (dim_w x) left_shift\<rceil>
             else nat \<lfloor>shift_product (dim_w x) left_shift\<rfloor>,
             if right_shift \<le> 0 then nat \<lceil>shift_product (dim_w x) right_shift\<rceil>
             else nat \<lfloor>shift_product (dim_w x) right_shift\<rfloor>, 0, 0)"
    by (intro GeoTransform_pads_finite) simp_all
  then show "GeoTransform_pads (dim_w x) (left_shift, right_shift) =
        Inr (if 0 \<le> left_shift then nat \<lceil>shift_product (dim_w x) left_shift\<rceil>
             else nat \<lfloor>shift_product (dim_w x) left_shift\<rfloor>,
             if right_shift \<le> 0 then nat \<lceil>shift_product (dim_w x) right_shift\<rceil>
             else nat \<lfloor>shift_product (dim_w x) right_shift\<rfloor>, 0, 0)" .
  show "GeoTransform_forward warp x target_size (left_shift, right_shift) =
          and_then
            (reflection_pad
               (if 0 \<le> left_shift then nat \<lceil>shift_product (dim_w x) left_shift\<rceil>
                else nat \<lfloor>shift_product (dim_w x) left_shift\<rfloor>)
               (if right_shift \<le> 0 then nat \<lceil>shift_product (dim_w x) right_shift\<rceil>
                else nat \<lfloor>shift_product (dim_w x) right_shift\<rfloor>) 0 0 x)
            (\<lambda>pad. Inr (grid_sample warp (left_shift, right_shift) target_size pad))"
    unfolding GeoTransform_forward_def p by (simp add: and_then_def)
qed

lemma shift_product_10_tenth: "shift_product 10 (3602879701896397 / 36028797018963968) = 1"
  using round_double_scaled [of 10 49]
    round_double_scaled [of "10 * (3602879701896397 / 36028797018963968)" 52]
  by (simp add: shift_product_def float_mul_def float_of_int_def round_even_def)

lemma shift_product_10_quarter: "shift_product 10 (- (1 / 4)) = 5 / 2"
  using round_double_scaled [of 10 49] round_double_scaled [of "5 / 2" 51]
  by (simp add: shift_product_def float_mul_def float_of_int_def round_even_def)

lemma shift_product_2_quarter: "shift_product 2 (1 / 4) = 1 / 2"
  using round_double_scaled [of 2 51] round_double_scaled [of "1 / 2" 53]
  by (simp add: shift_product_def float_mul_def float_of_int_def round_even_def)

theorem GeoTransform_pads_by_sign_witness:
  "GeoTransform_pads 10 (3602879701896397 / 36028797018963968, - (1 / 4)) = Inr (1, 3, 0, 0)
   \<and> GeoTransform_forward (\<lambda>shifts t h w. elem t)
        \<lparr>dim_b = 1, dim_c = 1, dim_h = 4, dim_w = 10, elem = (\<lambda>n c i j. 0)\<rparr> (4, 10)
        (3602879701896397 / 36028797018963968, - (1 / 4))
      = and_then (reflection_pad 1 3 0 0
                    \<lparr>dim_b = 1, dim_c = 1, dim_h = 4, dim_w = 10, elem = (\<lambda>n c i j. 0)\<rparr>)
          (\<lambda>pad. Inr (grid_sample (\<lambda>shifts t h w. elem t)
                          (3602879701896397 / 36028797018963968, - (1 / 4)) (4, 10) pad))"
proof -
  have c: "\<lceil>5 / 2 :: real\<rceil> = 3"
    by (simp add: ceiling_eq_iff)
  have i: "\<not> is_inf 1" "\<not> is_inf (5 / 2)"
    by (simp_all add: not_inf_small)
  show ?thesis
    using GeoTransform_pads_by_sign [where
        x = "\<lparr>dim_b = 1, dim_c = 1, dim_h = 4, dim_w = 10, elem = (\<lambda>n c i j. 0)\<rparr>"
        and left_shift = "3602879701896397 / 36028797018963968" and right_shift = "- (1 / 4)"
        and warp = "\<lambda>shifts t h w. elem t" and target_size = "(4, 10)"]
    by (simp add: shift_product_10_tenth shift_product_10_quarter c i)
qed

text \<open>
  On a tensor of width 2 the shifts \<open>(-1/4, 1/4)\<close> give no padding at all, where
  \<open>\<lceil>2 * \<bar>-1/4\<bar>\<rceil>\<close> and \<open>\<lceil>2 * \<bar>1/4\<bar>\<rceil>\<close> are both 1.
\<close>

theorem GeoTransform_pads_floor_example:
  "GeoTransform_pads 2 (- 1/4, 1/4) = Inr (0, 0, 0, 0)
   \<and> nat \<lceil>real 2 * \<bar>- 1/4 :: real\<bar>\<rceil> = 1 \<and> nat \<lceil>real 2 * \<bar>1/4 :: real\<bar>\<rceil> = 1"
proof -
  have up: "\<lceil>1/2 :: real\<rceil> = 1"
    by (simp add: ceiling_eq_iff)
  have down: "\<lfloor>1/2 :: real\<rfloor> = 0"
    by (simp add: floor_eq_iff)
  have s: "shift_product 2 (- (1 / 4)) = 1 / 2"
    using shift_product_2_quarter by (simp add: shift_product_def)
  have i: "\<not> is_inf (1 / 2)"
    by (simp add: not_inf_small)
  have "GeoTransform_pads 2 (- 1/4, 1/4) = Inr (0, 0, 0, 0)"
    using GeoTransform_pads_finite [of 2 "- 1/4" "1/4"]
    by (simp add: s shift_product_2_quarter i down)
  then show ?thesis
    by (simp add: up)
qed

text \<open>
  The rounding of the product shows in the pad. The double nearest to \<open>1/10\<close> is
  \<open>3602879701896397 / 2 ^ 55\<close>, a little above \<open>1/10\<close>; its product with the width 10
  rounds to 1, and the left pad is 1, where the ceiling of the exact product is 2.
\<close>

lemma GeoTransform_pads_rounded_product:
  "GeoTransform_pads 10 (3602879701896397 / 36028797018963968, 0) = Inr (1, 0, 0, 0)"
  "nat \<lceil>real 10 * \<bar>3602879701896397 / 36028797018963968 :: real\<bar>\<rceil> = 2"
proof -
  have z: "shift_product 10 0 = 0"
    by (simp add: shift_product_def float_mul_def round_double_def)
  have i: "\<not> is_inf 1" "\<not> is_inf 0"
    by (simp_all add: not_inf_small)
  show "GeoTransform_pads 10 (3602879701896397 / 36028797018963968, 0) = Inr (1, 0, 0, 0)"
    using GeoTransform_pads_finite [of 10 "3602879701896397 / 36028797018963968" 0]
    by (simp add: shift_product_10_tenth z i)
  show "nat \<lceil>real 10 * \<bar>3602879701896397 / 36028797018963968 :: real\<bar>\<rceil> = 2"
  proof -
    have "\<lceil>36028797018963970 / 36028797018963968 :: real\<rceil> = 2"
      by (simp add: ceiling_eq_iff)
    then show ?thesis
      by simp
  qed
qed

section \<open>Properties of RandomCrop\<close>

lemma configured_side_eq:
  assumes "0 < k" and "0 < im" and "im \<le> 2 ^ 32"
  shows "configured_side (real k) c im = (np_clip c 0 (int im - 1) div int k) * int k"
proof -
  let ?q = "np_clip c 0 (int im - 1)"
  have q: "0 \<le> ?q" "?q \<le> int im - 1"
    using assms by (auto simp: np_clip_def)
  have fl: "\<lfloor>of_int ?q * 1 / real k\<rfloor> = ?q div int k"
    using floor_divide_of_int_eq [of ?q "int k", where ?'a = real] by simp
  have "0 \<le> ?q div int k"
    using q(1) assms(1) by (simp add: pos_imp_zdiv_nonneg_iff)
  then have v1: "0 \<le> (?q div int k) * int k"
    by simp
  have "?q = (?q div int k) * int k + ?q mod int k"
    by simp
  moreover have "0 \<le> ?q mod int k"
    using assms(1) by simp
  ultimately have v2: "(?q div int k) * int k \<le> ?q"
    by linarith
  have "int im \<le> 2 ^ 32"
    using assms(3) by (metis of_nat_le_iff of_nat_numeral of_nat_power)
  with v2 q(2) have "(?q div int k) * int k < 2 ^ 32"
    by linarith
  with v1 have "((?q div int k) * int k) mod 2 ^ 32 = (?q div int k) * int k"
    by simp
  moreover have "(of_int (?q div int k) * real k :: real) = of_int ((?q div int k) * int k)"
    by simp
  ultimately show ?thesis
    unfolding configured_side_def fl np_uint32_def
    using v1 assms(1) by (simp del: of_int_mult add: of_int_mult [symmetric])
qed

lemma slice_bound_nonneg: "0 \<le> a \<Longrightarrow> a \<le> int n \<Longrightarrow> slice_bound a n = nat a"
  by (auto simp: slice_bound_def)

lemma randint_range:
  "randint 0 high r = Inr v \<Longrightarrow> 0 \<le> v \<and> v < high"
  by (auto simp: randint_def split: if_splits)

lemma slice_hw_dims:
  assumes "0 \<le> tv" "0 \<le> cv" "tv + cv \<le> int (dim_h t)" "0 \<le> th" "0 \<le> ch" "th + ch \<le> int (dim_w t)"
  shows "int (dim_h (slice_hw t tv (tv + cv) th (th + ch))) = cv"
    and "int (dim_w (slice_hw t tv (tv + cv) th (th + ch))) = ch"
  using assms by (simp_all add: slice_hw_def slice_bound_nonneg)


lemma RandomCrop_forward_core:
  assumes sz: "call_crop_size self supplied (dim_h t0) (dim_w t0) = Inr (cv, ch)"
    and cv: "0 \<le> cv" "cv < int (dim_h t0)" and ch: "0 \<le> ch" "ch < int (dim_w t0)"
    and reg: "co_registered t0 rest"
  shows "\<exists>r. RandomCrop_forward self (Some t0 # rest) supplied draws = Inr r \<and>
           list_all (\<lambda>t. case t of None \<Rightarrow> True
                          | Some out \<Rightarrow> int (dim_h out) = cv \<and> int (dim_w out) = ch) (crops_of r)"
proof -
  define tv where "tv = int (fst draws) mod (int (dim_h t0) - cv)"
  define th where "th = int (snd draws) mod (int (dim_w t0) - ch)"
  have rv: "randint 0 (int (dim_h t0) - cv) (fst draws) = Inr tv"
    using cv by (simp add: randint_def tv_def)
  have rh: "randint 0 (int (dim_w t0) - ch) (snd draws) = Inr th"
    using ch by (simp add: randint_def th_def)
  have tvb: "0 \<le> tv" "tv + cv \<le> int (dim_h t0)"
    using randint_range [OF rv] by auto
  have thb: "0 \<le> th" "th + ch \<le> int (dim_w t0)"
    using randint_range [OF rh] by auto
  let ?f = "map_option (\<lambda>t. slice_hw t tv (tv + cv) th (th + ch))"
  let ?P = "\<lambda>t. case t of None \<Rightarrow> True
                          | Some out \<Rightarrow> int (dim_h out) = cv \<and> int (dim_w out) = ch"
  have one: "?P (?f t)" if "case t of None \<Rightarrow> True | Some t' \<Rightarrow> dim_h t' = dim_h t0 \<and> dim_w t' = dim_w t0" for t
  proof (cases t)
    case None
    then show ?thesis by simp
  next
    case (Some t')
    with that have d: "dim_h t' = dim_h t0" "dim_w t' = dim_w t0" by simp_all
    from tvb thb cv ch d show ?thesis
      unfolding Some by (simp add: slice_hw_dims)
  qed
  have pre: "\<forall>t\<in>set (Some t0 # rest).
      case t of None \<Rightarrow> True | Some t' \<Rightarrow> dim_h t' = dim_h t0 \<and> dim_w t' = dim_w t0"
    using reg by (simp add: co_registered_def list_all_iff)
  have "\<forall>t\<in>set (Some t0 # rest). ?P (?f t)"
    using pre one by blast
  then have "list_all ?P (map ?f (Some t0 # rest))"
    unfolding list_all_iff set_map by blast
  moreover have "crops_of (if return_pos self then CropsPos (map ?f (Some t0 # rest)) (tv, th)
                    else Crops (map ?f (Some t0 # rest))) = map ?f (Some t0 # rest)"
    by simp
  moreover have "RandomCrop_forward self (Some t0 # rest) supplied draws =
      Inr (if return_pos self then CropsPos (map ?f (Some t0 # rest)) (tv, th)
                    else Crops (map ?f (Some t0 # rest)))"
    unfolding RandomCrop_forward_def by (simp add: sz rv rh and_then_def Let_def del: list.map)
  ultimately show ?thesis
    by (metis (no_types, lifting))
qed

text \<open>
  C6. On a non-empty list of co-registered tensors whose first tensor is present:
  with the configured crop size (a positive whole \<^verbatim>\<open>must_divide\<close>, source sides of at
  least one pixel) \<^verbatim>\<open>RandomCrop.forward\<close> returns, and the height and width of every
  returned crop are multiples of \<^verbatim>\<open>must_divide\<close> and strictly less than the source's;
  with a crop size supplied at call time that is not negative and strictly less than the
  source's sides it returns crops of exactly the supplied size, whatever \<^verbatim>\<open>must_divide\<close>
  is.
\<close>

theorem RandomCrop_forward_sizes:
  assumes reg: "co_registered src rest"
  shows
   "(crop_size self = Some (c_v, c_h) \<and> must_divide self = real k \<and> 0 < k
       \<and> 0 < dim_h src \<and> dim_h src \<le> 2 ^ 32 \<and> 0 < dim_w src \<and> dim_w src \<le> 2 ^ 32 \<longrightarrow>
      (\<exists>r. RandomCrop_forward self (Some src # rest) None draws = Inr r \<and>
           list_all (\<lambda>t. case t of None \<Rightarrow> True
                          | Some out \<Rightarrow> k dvd dim_h out \<and> k dvd dim_w out
                                        \<and> dim_h out < dim_h src \<and> dim_w out < dim_w src) (crops_of r)))
    \<and> (0 \<le> cr_v \<and> cr_v < int (dim_h src) \<and> 0 \<le> cr_h \<and> cr_h < int (dim_w src) \<longrightarrow>
      (\<exists>r. RandomCrop_forward self (Some src # rest) (Some (cr_v, cr_h)) draws = Inr r \<and>
           list_all (\<lambda>t. case t of None \<Rightarrow> True
                          | Some out \<Rightarrow> int (dim_h out) = cr_v \<and> int (dim_w out) = cr_h) (crops_of r)))"
proof (intro conjI impI)
  assume a: "crop_size self = Some (c_v, c_h) \<and> must_divide self = real k \<and> 0 < k
       \<and> 0 < dim_h src \<and> dim_h src \<le> 2 ^ 32 \<and> 0 < dim_w src \<and> dim_w src \<le> 2 ^ 32"
  define cv where "cv = (np_clip c_v 0 (int (dim_h src) - 1) div int k) * int k"
  define ch where "ch = (np_clip c_h 0 (int (dim_w src) - 1) div int k) * int k"
  have side_v: "configured_side (real k) c_v (dim_h src) = cv"
    using a by (simp add: configured_side_eq cv_def)
  have side_h: "configured_side (real k) c_h (dim_w src) = ch"
    using a by (simp add: configured_side_eq ch_def)
  have sz: "call_crop_size self None (dim_h src) (dim_w src) = Inr (cv, ch)"
    using a by (simp add: call_crop_size_def side_v side_h)
  have bound: "0 \<le> (q div int k) * int k \<and> (q div int k) * int k \<le> q" if "0 \<le> q" for q
  proof -
    have "0 \<le> q div int k"
      using that a by (simp add: pos_imp_zdiv_nonneg_iff)
    moreover have "q = (q div int k) * int k + q mod int k"
      by simp
    moreover have "0 \<le> q mod int k"
      using a by simp
    ultimately show ?thesis
      by (smt (verit) mult_nonneg_nonneg of_nat_0_le_iff)
  qed
  have cvb: "0 \<le> cv" "cv < int (dim_h src)"
    using bound [of "np_clip c_v 0 (int (dim_h src) - 1)"] a by (auto simp: cv_def np_clip_def)
  have chb: "0 \<le> ch" "ch < int (dim_w src)"
    using bound [of "np_clip c_h 0 (int (dim_w src) - 1)"] a by (auto simp: ch_def np_clip_def)
  from RandomCrop_forward_core [OF sz cvb chb reg, of draws]
  obtain r where r: "RandomCrop_forward self (Some src # rest) None draws = Inr r"
    and all: "list_all (\<lambda>t. case t of None \<Rightarrow> True
                          | Some out \<Rightarrow> int (dim_h out) = cv \<and> int (dim_w out) = ch) (crops_of r)"
    by blast
  have "k dvd dim_h out \<and> k dvd dim_w out \<and> dim_h out < dim_h src \<and> dim_w out < dim_w src"
    if "int (dim_h out) = cv" "int (dim_w out) = ch" for out
  proof -
    have "int k dvd int (dim_h out)" "int k dvd int (dim_w out)"
      using that by (simp_all add: cv_def ch_def)
    then have "k dvd dim_h out" "k dvd dim_w out"
      by (simp_all only: int_dvd_int_iff)
    moreover have "dim_h out < dim_h src" "dim_w out < dim_w src"
      using that cvb chb by linarith+
    ultimately show ?thesis by simp
  qed
  then have "list_all (\<lambda>t. case t of None \<Rightarrow> True
                          | Some out \<Rightarrow> k dvd dim_h out \<and> k dvd dim_w out
                                        \<and> dim_h out < dim_h src \<and> dim_w out < dim_w src) (crops_of r)"
    using all unfolding list_all_iff by (auto split: option.splits)
  with r show "\<exists>r. RandomCrop_forward self (Some src # rest) None draws = Inr r \<and>
           list_all (\<lambda>t. case t of None \<Rightarrow> True
                          | Some out \<Rightarrow> k dvd dim_h out \<and> k dvd dim_w out
                                        \<and> dim_h out < dim_h src \<and> dim_w out < dim_w src) (crops_of r)"
    by blast
next
  assume b: "0 \<le> cr_v \<and> cr_v < int (dim_h src) \<and> 0 \<le> cr_h \<and> cr_h < int (dim_w src)"
  have sz: "call_crop_size self (Some (cr_v, cr_h)) (dim_h src) (dim_w src) = Inr (cr_v, cr_h)"
    by (simp add: call_crop_size_def)
  from b RandomCrop_forward_core [OF sz _ _ _ _ reg, of draws]
  show "\<exists>r. RandomCrop_forward self (Some src # rest) (Some (cr_v, cr_h)) draws = Inr r \<and>
           list_all (\<lambda>t. case t of None \<Rightarrow> True
                          | Some out \<Rightarrow> int (dim_h out) = cr_v \<and> int (dim_w out) = cr_h) (crops_of r)"
    by blast
qed


theorem RandomCrop_forward_sizes_witness:
  "(\<exists>r. RandomCrop_forward (RandomCrop_init (Some (8, 8)) False 4)
          [Some \<lparr>dim_b = 1, dim_c = 1, dim_h = 10, dim_w = 10, elem = (\<lambda>n c i j. 0)\<rparr>, None]
          None (3, 5) = Inr r \<and>
        list_all (\<lambda>t. case t of None \<Rightarrow> True
                       | Some out \<Rightarrow> 4 dvd dim_h out \<and> 4 dvd dim_w out
                                     \<and> dim_h out < 10 \<and> dim_w out < 10) (crops_of r))
   \<and> (\<exists>r. RandomCrop_forward (RandomCrop_init (Some (8, 8)) False 4)
          [Some \<lparr>dim_b = 1, dim_c = 1, dim_h = 10, dim_w = 10, elem = (\<lambda>n c i j. 0)\<rparr>, None]
          (Some (7, 7)) (3, 5) = Inr r \<and>
        list_all (\<lambda>t. case t of None \<Rightarrow> True
                       | Some out \<Rightarrow> dim_h out = 7 \<and> dim_w out = 7) (crops_of r))"
  using RandomCrop_forward_sizes [where
          src = "\<lparr>dim_b = 1, dim_c = 1, dim_h = 10, dim_w = 10, elem = (\<lambda>n c i j. 0)\<rparr>"
          and rest = "[None]" and self = "RandomCrop_init (Some (8, 8)) False 4"
          and c_v = 8 and c_h = 8 and k = 4 and cr_v = 7 and cr_h = 7 and draws = "(3, 5)"]
  by (simp add: co_registered_def RandomCrop_init_def)

text \<open>
  With \<^verbatim>\<open>must_divide = 4\<close>, a 10 by 10 source and the crop size \<open>(7, 7)\<close> supplied at call
  time, the returned crop is 7 by 7: less than the source, and no multiple of 4.
\<close>

theorem RandomCrop_supplied_size_not_floored:
  "RandomCrop_forward (RandomCrop_init (Some (8, 8)) False 4)
     [Some \<lparr>dim_b = 1, dim_c = 1, dim_h = 10, dim_w = 10, elem = (\<lambda>n c i j. 0)\<rparr>]
     (Some (7, 7)) (0, 0)
   = Inr (Crops [Some (slice_hw \<lparr>dim_b = 1, dim_c = 1, dim_h = 10, dim_w = 10, elem = (\<lambda>n c i j. 0)\<rparr>
                          0 7 0 7)])
   \<and> dim_h (slice_hw \<lparr>dim_b = 1, dim_c = 1, dim_h = 10, dim_w = 10, elem = (\<lambda>n c i j. 0)\<rparr> 0 7 0 7) = 7
   \<and> dim_w (slice_hw \<lparr>dim_b = 1, dim_c = 1, dim_h = 10, dim_w = 10, elem = (\<lambda>n c i j. 0)\<rparr> 0 7 0 7) = 7
   \<and> \<not> (4::nat) dvd 7"
  by (simp add: RandomCrop_forward_def RandomCrop_init_def call_crop_size_def randint_def
        and_then_def slice_hw_def slice_bound_def)

section \<open>Properties of SwapCrops\<close>

lemma and_then_Inr: "and_then m f = Inr y \<longleftrightarrow> (\<exists>v. m = Inr v \<and> f v = Inr y)"
  by (cases m) (simp_all add: and_then_def)

lemma np_uint32_nonneg: "0 \<le> np_uint32 x"
  by (simp add: np_uint32_def)

lemma RandomCrop_single:
  assumes "RandomCrop_forward rc [Some x] (Some (cv, ch)) dr = Inr r"
    and "unpack_crop r = Inr (crop, tv, th)"
  shows "cv < int (dim_h x) \<and> ch < int (dim_w x)
       \<and> tv = int (fst dr) mod (int (dim_h x) - cv)
       \<and> th = int (snd dr) mod (int (dim_w x) - ch)
       \<and> crop = slice_hw x tv (tv + cv) th (th + ch)"
  using assms
  by (auto simp: RandomCrop_forward_def call_crop_size_def randint_def and_then_def Let_def
      split: if_splits)

lemma slice_window:
  assumes "0 \<le> a" "0 \<le> c" "a + c \<le> int n"
  shows "slice_bound a n = nat a" "slice_bound (a + c) n = nat a + nat c"
  using assms by (auto simp: slice_bound_def)

lemma bidx_window: "a \<le> i \<Longrightarrow> i < a + k \<Longrightarrow> bidx k (i - a) = i - a"
  by (rule bidx_less) arith

lemma fill_hw_elem:
  "elem (fill_hw t v0 v1 h0 h1 val) n c i j =
     (if in_slice v0 v1 (dim_h t) i \<and> in_slice h0 h1 (dim_w t) j then val else elem t n c i j)"
  by (simp add: fill_hw_def)

lemma fill_hw_dims [simp]:
  "dim_h (fill_hw t v0 v1 h0 h1 val) = dim_h t" "dim_w (fill_hw t v0 v1 h0 h1 val) = dim_w t"
  "dim_b (fill_hw t v0 v1 h0 h1 val) = dim_b t" "dim_c (fill_hw t v0 v1 h0 h1 val) = dim_c t"
  by (simp_all add: fill_hw_def)

lemma draw_lines_dims [simp]:
  "dim_h (draw_lines t mw v h cv ch) = dim_h t" "dim_w (draw_lines t mw v h cv ch) = dim_w t"
  by (simp_all add: draw_lines_def Let_def)

lemma draw_lines_elem:
  "elem (draw_lines t mw v h cv ch) n c i j =
     (if in_slice (v + cv - mw) (v + cv + mw) (dim_h t) i \<and> in_slice h (h + ch) (dim_w t) j
         \<or> in_slice v (v + cv) (dim_h t) i \<and> in_slice (h + ch - mw) (h + ch + mw) (dim_w t) j
         \<or> in_slice (v - mw) (v + mw) (dim_h t) i \<and> in_slice h (h + ch) (dim_w t) j
         \<or> in_slice v (v + cv) (dim_h t) i \<and> in_slice (h - mw) (h + mw) (dim_w t) j
      then 0 else elem t n c i j)"
  by (simp add: draw_lines_def Let_def fill_hw_elem)


lemma crop_step:
  assumes r: "RandomCrop_forward rc [Some x] (Some (cv, ch)) dr = Inr r"
    and u: "unpack_crop r = Inr (crop, tv, th)"
    and nn: "0 \<le> cv" "0 \<le> ch"
  shows "0 \<le> tv \<and> tv + cv < int (dim_h x) \<and> 0 \<le> th \<and> th + ch < int (dim_w x)
       \<and> tv = int (fst dr) mod (int (dim_h x) - cv)
       \<and> th = int (snd dr) mod (int (dim_w x) - ch)
       \<and> crop = slice_hw x tv (tv + cv) th (th + ch)"
proof -
  from RandomCrop_single [OF r u]
  have a: "cv < int (dim_h x)" "ch < int (dim_w x)"
    "tv = int (fst dr) mod (int (dim_h x) - cv)" "th = int (snd dr) mod (int (dim_w x) - ch)"
    "crop = slice_hw x tv (tv + cv) th (th + ch)"
    by simp_all
  from a(1) have "0 \<le> int (fst dr) mod (int (dim_h x) - cv)"
    "int (fst dr) mod (int (dim_h x) - cv) < int (dim_h x) - cv"
    by simp_all
  moreover from a(2) have "0 \<le> int (snd dr) mod (int (dim_w x) - ch)"
    "int (snd dr) mod (int (dim_w x) - ch) < int (dim_w x) - ch"
    by simp_all
  ultimately have "0 \<le> tv" "tv + cv < int (dim_h x)" "0 \<le> th" "th + ch < int (dim_w x)"
    unfolding a(3,4) by linarith+
  with a show ?thesis
    by blast
qed

lemma slice_hw_window:
  assumes "0 \<le> tv" "0 \<le> cv" "tv + cv \<le> int (dim_h t)" "0 \<le> th" "0 \<le> ch" "th + ch \<le> int (dim_w t)"
  shows "slice_hw t tv (tv + cv) th (th + ch) =
           t\<lparr>dim_h := nat cv, dim_w := nat ch,
             elem := (\<lambda>n c i j. elem t n c (nat tv + i) (nat th + j))\<rparr>"
proof -
  have b: "slice_bound tv (dim_h t) = nat tv" "slice_bound (tv + cv) (dim_h t) = nat tv + nat cv"
    "slice_bound th (dim_w t) = nat th" "slice_bound (th + ch) (dim_w t) = nat th + nat ch"
    using assms by (simp_all add: slice_window)
  show ?thesis
    by (simp add: slice_hw_def b)
qed

lemma assign_window:
  assumes "0 \<le> tv" "0 \<le> cv" "tv + cv \<le> int (dim_h t)" "0 \<le> th" "0 \<le> ch" "th + ch \<le> int (dim_w t)"
    and "dim_b src = dim_b t" "dim_c src = dim_c t" "dim_h src = nat cv" "dim_w src = nat ch"
  shows "assign_hw t tv (tv + cv) th (th + ch) src =
     Inr (t\<lparr>elem := (\<lambda>n c i j.
            if (nat tv \<le> i \<and> i < nat tv + nat cv) \<and> (nat th \<le> j \<and> j < nat th + nat ch)
            then elem src (bidx (dim_b t) n) (bidx (dim_c t) c)
                   (bidx (nat cv) (i - nat tv)) (bidx (nat ch) (j - nat th))
            else elem t n c i j)\<rparr>)"
proof -
  have b: "slice_bound tv (dim_h t) = nat tv" "slice_bound (tv + cv) (dim_h t) = nat tv + nat cv"
    "slice_bound th (dim_w t) = nat th" "slice_bound (th + ch) (dim_w t) = nat th + nat ch"
    using assms(1-6) by (simp_all add: slice_window)
  show ?thesis
    unfolding assign_hw_def fits_def in_slice_def b assms(7-10) by simp
qed

lemma SwapCrops_forward_result:
  assumes fw: "SwapCrops_forward self x d = Inr (out, loss_mask)"
    and lay: "swap_layout self x d = ((cv, ch), (v1, h1), (v2, h2))"
  shows "v1 + cv < dim_h x \<and> h1 + ch < dim_w x \<and> v2 + cv < dim_h x \<and> h2 + ch < dim_w x"
    and "loss_mask = draw_lines (draw_lines (ones_like x) (mask_width self) (int v1) (int h1) (int cv) (int ch))
                  (mask_width self) (int v2) (int h2) (int cv) (int ch)"
    and "n < dim_b x \<Longrightarrow> c < dim_c x \<Longrightarrow>
         elem out n c i j =
           (if (i, j) \<in> rect v2 h2 cv ch then elem x n c (v1 + (i - v2)) (h1 + (j - h2))
            else if (i, j) \<in> rect v1 h1 cv ch then elem x n c (v2 + (i - v1)) (h2 + (j - h1))
            else elem x n c i j)"
proof -
  obtain icv ich where cs: "swap_crop_size self d = (icv, ich)"
    by (cases "swap_crop_size self d")
  have nn: "0 \<le> icv" "0 \<le> ich"
    using cs by (auto simp: swap_crop_size_def np_uint32_nonneg)
  from fw cs obtain r1 crop_1 tv1 th1 r2 crop_2 tv2 th2 o1 where
    r1: "RandomCrop_forward (rand_crop_1 self) [Some x] (Some (icv, ich)) (draws_1 d) = Inr r1"
    and u1: "unpack_crop r1 = Inr (crop_1, tv1, th1)"
    and r2: "RandomCrop_forward (rand_crop_1 self) [Some x] (Some (icv, ich)) (draws_2 d) = Inr r2"
    and u2: "unpack_crop r2 = Inr (crop_2, tv2, th2)"
    and a1: "assign_hw ((zeros_like x)\<lparr>elem := elem x\<rparr>) tv1 (tv1 + icv) th1 (th1 + ich) crop_2 = Inr o1"
    and a2: "assign_hw o1 tv2 (tv2 + icv) th2 (th2 + ich) crop_1 = Inr out"
    and m: "loss_mask = draw_lines (draw_lines (ones_like x) (mask_width self) tv1 th1 icv ich)
                  (mask_width self) tv2 th2 icv ich"
    unfolding SwapCrops_forward_def
    by (auto simp: and_then_Inr split: prod.splits)
  note s1 = crop_step [OF r1 u1 nn]
  note s2 = crop_step [OF r2 u2 nn]
  from lay cs s1 s2 have l: "cv = nat icv" "ch = nat ich" "v1 = nat tv1" "h1 = nat th1"
    "v2 = nat tv2" "h2 = nat th2"
    by (simp_all add: swap_layout_def)
  with nn s1 s2 have i: "int cv = icv" "int ch = ich" "int v1 = tv1" "int h1 = th1"
    "int v2 = tv2" "int h2 = th2"
    by simp_all
  from s1 s2 nn show "v1 + cv < dim_h x \<and> h1 + ch < dim_w x \<and> v2 + cv < dim_h x \<and> h2 + ch < dim_w x"
    unfolding l by linarith
  from m show "loss_mask = draw_lines (draw_lines (ones_like x) (mask_width self) (int v1) (int h1) (int cv) (int ch))
                  (mask_width self) (int v2) (int h2) (int cv) (int ch)"
    unfolding i .
  have c1: "crop_1 = x\<lparr>dim_h := nat icv, dim_w := nat ich,
             elem := (\<lambda>n c i j. elem x n c (nat tv1 + i) (nat th1 + j))\<rparr>"
    using s1 nn by (simp add: slice_hw_window)
  have c2: "crop_2 = x\<lparr>dim_h := nat icv, dim_w := nat ich,
             elem := (\<lambda>n c i j. elem x n c (nat tv2 + i) (nat th2 + j))\<rparr>"
    using s2 nn by (simp add: slice_hw_window)
  have x0: "(zeros_like x)\<lparr>elem := elem x\<rparr> = x"
    by (simp add: zeros_like_def)
  have o1: "o1 = x\<lparr>elem := (\<lambda>n c i j.
            if (nat tv1 \<le> i \<and> i < nat tv1 + nat icv) \<and> (nat th1 \<le> j \<and> j < nat th1 + nat ich)
            then elem crop_2 (bidx (dim_b x) n) (bidx (dim_c x) c)
                   (bidx (nat icv) (i - nat tv1)) (bidx (nat ich) (j - nat th1))
            else elem x n c i j)\<rparr>"
    using a1 unfolding x0
    by (subst (asm) assign_window) (use s1 nn in \<open>simp_all add: c2\<close>)
  have out: "out = o1\<lparr>elem := (\<lambda>n c i j.
            if (nat tv2 \<le> i \<and> i < nat tv2 + nat icv) \<and> (nat th2 \<le> j \<and> j < nat th2 + nat ich)
            then elem crop_1 (bidx (dim_b o1) n) (bidx (dim_c o1) c)
                   (bidx (nat icv) (i - nat tv2)) (bidx (nat ich) (j - nat th2))
            else elem o1 n c i j)\<rparr>"
    using a2
    by (subst (asm) assign_window) (use s2 nn in \<open>simp_all add: c1 o1\<close>)
  assume n: "n < dim_b x" and c: "c < dim_c x"
  show "elem out n c i j =
           (if (i, j) \<in> rect v2 h2 cv ch then elem x n c (v1 + (i - v2)) (h1 + (j - h2))
            else if (i, j) \<in> rect v1 h1 cv ch then elem x n c (v2 + (i - v1)) (h2 + (j - h1))
            else elem x n c i j)"
    unfolding out o1 c1 c2 l rect_def
    using n c by (auto simp: bidx_less bidx_window)
qed

lemma RandomCrop_supplied_returns:
  assumes "0 \<le> cv" "cv < int (dim_h x)" "0 \<le> ch" "ch < int (dim_w x)" "return_pos rc"
  shows "\<exists>tv th. RandomCrop_forward rc [Some x] (Some (cv, ch)) dr
           = Inr (CropsPos [Some (slice_hw x tv (tv + cv) th (th + ch))] (tv, th))
         \<and> 0 \<le> tv \<and> tv + cv \<le> int (dim_h x) \<and> 0 \<le> th \<and> th + ch \<le> int (dim_w x)"
proof -
  from assms(2) have "0 \<le> int (fst dr) mod (int (dim_h x) - cv)"
    "int (fst dr) mod (int (dim_h x) - cv) < int (dim_h x) - cv"
    by simp_all
  moreover from assms(4) have "0 \<le> int (snd dr) mod (int (dim_w x) - ch)"
    "int (snd dr) mod (int (dim_w x) - ch) < int (dim_w x) - ch"
    by simp_all
  moreover have "RandomCrop_forward rc [Some x] (Some (cv, ch)) dr
           = Inr (CropsPos [Some (slice_hw x (int (fst dr) mod (int (dim_h x) - cv))
                                   (int (fst dr) mod (int (dim_h x) - cv) + cv)
                                   (int (snd dr) mod (int (dim_w x) - ch))
                                   (int (snd dr) mod (int (dim_w x) - ch) + ch))]
                   (int (fst dr) mod (int (dim_h x) - cv), int (snd dr) mod (int (dim_w x) - ch)))"
    using assms by (simp add: RandomCrop_forward_def call_crop_size_def randint_def and_then_def)
  ultimately show ?thesis
    by (intro exI conjI) (assumption | linarith)+
qed

lemma SwapCrops_forward_returns:
  assumes cs: "swap_crop_size self d = (icv, ich)"
    and lt: "icv < int (dim_h x)" "ich < int (dim_w x)"
    and rp: "return_pos (rand_crop_1 self)"
  shows "\<exists>out loss_mask. SwapCrops_forward self x d = Inr (out, loss_mask)"
proof -
  have nn: "0 \<le> icv" "0 \<le> ich"
    using cs by (auto simp: swap_crop_size_def np_uint32_nonneg)
  from RandomCrop_supplied_returns [OF nn(1) lt(1) nn(2) lt(2) rp, of "draws_1 d"]
  obtain tv1 th1 where r1: "RandomCrop_forward (rand_crop_1 self) [Some x] (Some (icv, ich)) (draws_1 d)
           = Inr (CropsPos [Some (slice_hw x tv1 (tv1 + icv) th1 (th1 + ich))] (tv1, th1))"
    and b1: "0 \<le> tv1" "tv1 + icv \<le> int (dim_h x)" "0 \<le> th1" "th1 + ich \<le> int (dim_w x)"
    by blast
  from RandomCrop_supplied_returns [OF nn(1) lt(1) nn(2) lt(2) rp, of "draws_2 d"]
  obtain tv2 th2 where r2: "RandomCrop_forward (rand_crop_1 self) [Some x] (Some (icv, ich)) (draws_2 d)
           = Inr (CropsPos [Some (slice_hw x tv2 (tv2 + icv) th2 (th2 + ich))] (tv2, th2))"
    and b2: "0 \<le> tv2" "tv2 + icv \<le> int (dim_h x)" "0 \<le> th2" "th2 + ich \<le> int (dim_w x)"
    by blast
  have x0: "(zeros_like x)\<lparr>elem := elem x\<rparr> = x"
    by (simp add: zeros_like_def)
  have sl: "slice_hw x tv (tv + icv) th (th + ich) =
           x\<lparr>dim_h := nat icv, dim_w := nat ich,
             elem := (\<lambda>n c i j. elem x n c (nat tv + i) (nat th + j))\<rparr>"
    if "0 \<le> tv" "tv + icv \<le> int (dim_h x)" "0 \<le> th" "th + ich \<le> int (dim_w x)" for tv th
    using that nn by (simp add: slice_hw_window)
  obtain o1 where a1: "assign_hw x tv1 (tv1 + icv) th1 (th1 + ich)
      (slice_hw x tv2 (tv2 + icv) th2 (th2 + ich)) = Inr o1" and d1: "shape o1 = shape x"
    using assign_window [OF b1(1) nn(1) b1(2) b1(3) nn(2) b1(4), of "slice_hw x tv2 (tv2 + icv) th2 (th2 + ich)"]
    by (simp add: sl b2 shape_def)
  have "\<exists>out. assign_hw o1 tv2 (tv2 + icv) th2 (th2 + ich)
      (slice_hw x tv1 (tv1 + icv) th1 (th1 + ich)) = Inr out"
    using assign_window [of tv2 icv o1 th2 ich "slice_hw x tv1 (tv1 + icv) th1 (th1 + ich)"] d1 b2 nn
    by (simp add: sl b1 shape_def)
  then show ?thesis
    unfolding SwapCrops_forward_def
    by (auto simp: cs r1 r2 and_then_def x0 a1)
qed

text \<open>
  C5. A 40 by 40 image, \<^verbatim>\<open>mask_width = 5\<close>, two 12 by 12 regions drawn at \<open>(2, 2)\<close> and
  \<open>(25, 25)\<close>. The left band of the first region is the slice of columns \<open>2 - 5 : 2 + 5\<close>,
  whose negative start counts from the end and leaves it empty, as does the top band: the
  pixel \<open>(8, 2)\<close>, on the left edge of the first region, keeps the mask value 1, while the
  pixel \<open>(8, 13)\<close> on its right edge has 0.
\<close>

theorem SwapCrops_mask_near_border:
  "map_sum id (\<lambda>(out, loss_mask). (elem loss_mask 0 0 8 2, elem loss_mask 0 0 8 13))
     (SwapCrops_forward (SwapCrops_init 8 16 5)
        \<lparr>dim_b = 1, dim_c = 1, dim_h = 40, dim_w = 40, elem = (\<lambda>n c i j. 0)\<rparr>
        \<lparr>rand_2 = (1/2, 1/2), draws_1 = (2, 2), draws_2 = (25, 25)\<rparr>)
   = Inr (1, 0)"
proof -
  define T where "T = \<lparr>dim_b = 1, dim_c = 1, dim_h = 40, dim_w = 40, elem = (\<lambda>n c i j. 0::real)\<rparr>"
  define D where "D = \<lparr>rand_2 = (1/2, 1/2), draws_1 = (2, 2), draws_2 = (25::nat, 25::nat)\<rparr>"
  have dims: "dim_b T = 1" "dim_c T = 1" "dim_h T = 40" "dim_w T = 40"
    by (simp_all add: T_def)
  have cs: "swap_crop_size (SwapCrops_init 8 16 5) D = (12, 12)"
    by (simp add: swap_crop_size_def SwapCrops_init_def D_def np_uint32_def)
  have lay: "swap_layout (SwapCrops_init 8 16 5) T D = ((12, 12), (2, 2), (25, 25))"
    by (simp add: swap_layout_def cs dims) (simp add: D_def)
  obtain out lm where fw: "SwapCrops_forward (SwapCrops_init 8 16 5) T D = Inr (out, lm)"
    using SwapCrops_forward_returns [OF cs, of T]
    by (auto simp: dims SwapCrops_init_def RandomCrop_init_def)
  have mw: "mask_width (SwapCrops_init 8 16 5) = 5"
    by (simp add: SwapCrops_init_def)
  have lm: "lm = draw_lines (draw_lines (ones_like T) 5 2 2 12 12) 5 25 25 12 12"
    using SwapCrops_forward_result(2) [OF fw lay] by (simp add: mw)
  have od: "dim_h (ones_like T) = 40" "dim_w (ones_like T) = 40" "elem (ones_like T) n c i j = 1" for n c i j
    by (simp_all add: ones_like_def dims)
  have "elem lm 0 0 8 2 = 1" "elem lm 0 0 8 13 = 0"
    unfolding lm by (simp_all add: draw_lines_elem od in_slice_def slice_bound_def)
  then show ?thesis
    unfolding T_def [symmetric] D_def [symmetric] fw by simp
qed

lemma involution_image_mset:
  assumes inv: "\<And>p. p \<in> A \<Longrightarrow> s p \<in> A \<and> s (s p) = p"
  shows "image_mset (\<lambda>p. f (s p)) (mset_set A) = image_mset f (mset_set A)"
proof -
  have inj: "inj_on s A"
    by (rule inj_on_inverseI [where g = s]) (simp add: inv)
  have img: "s ` A = A"
  proof
    show "s ` A \<subseteq> A" using inv by blast
    show "A \<subseteq> s ` A"
    proof
      fix p assume "p \<in> A"
      with inv have "s p \<in> A" "p = s (s p)" by simp_all
      then show "p \<in> s ` A" by blast
    qed
  qed
  have "image_mset (\<lambda>p. f (s p)) (mset_set A) = image_mset f (image_mset s (mset_set A))"
    by (simp add: multiset.map_comp comp_def)
  also have "\<dots> = image_mset f (mset_set (s ` A))"
    by (simp add: image_mset_mset_set [OF inj])
  finally show ?thesis
    by (simp add: img)
qed

lemma swap_permutes_when_separate:
  assumes fw: "SwapCrops_forward self x d = Inr (out, loss_mask)"
    and lay: "swap_layout self x d = ((cv, ch), (v1, h1), (v2, h2))"
    and sep: "rect v1 h1 cv ch \<inter> rect v2 h2 cv ch = {} \<or> (v1, h1) = (v2, h2)"
    and n: "n < dim_b x" and c: "c < dim_c x"
  shows "image_mset (\<lambda>(i, j). elem out n c i j) (mset_set (rect v1 h1 cv ch \<union> rect v2 h2 cv ch))
           = image_mset (\<lambda>(i, j). elem x n c i j) (mset_set (rect v1 h1 cv ch \<union> rect v2 h2 cv ch))
       \<and> (\<Sum>(i, j) \<in> rect v1 h1 cv ch \<union> rect v2 h2 cv ch. elem out n c i j)
           = (\<Sum>(i, j) \<in> rect v1 h1 cv ch \<union> rect v2 h2 cv ch. elem x n c i j)
       \<and> (\<forall>i j. (i, j) \<notin> rect v1 h1 cv ch \<union> rect v2 h2 cv ch \<longrightarrow> elem out n c i j = elem x n c i j)"
proof -
  let ?A = "rect v1 h1 cv ch \<union> rect v2 h2 cv ch"
  define s where "s = (\<lambda>p::nat \<times> nat.
     if p \<in> rect v2 h2 cv ch then (v1 + (fst p - v2), h1 + (snd p - h2))
     else if p \<in> rect v1 h1 cv ch then (v2 + (fst p - v1), h2 + (snd p - h1))
     else p)"
  have px: "elem out n c i j = elem x n c (fst (s (i, j))) (snd (s (i, j)))" for i j
    using SwapCrops_forward_result(3) [OF fw lay n c, of i j] by (simp add: s_def)
  have inv: "s p \<in> ?A \<and> s (s p) = p" if "p \<in> ?A" for p
  proof -
    obtain i j where p: "p = (i, j)" by (cases p)
    from sep show ?thesis
    proof
      assume dis: "rect v1 h1 cv ch \<inter> rect v2 h2 cv ch = {}"
      show ?thesis
      proof (cases "p \<in> rect v2 h2 cv ch")
        case True
        then have m: "s p = (v1 + (i - v2), h1 + (j - h2))"
          by (simp add: s_def p)
        from True have in1: "s p \<in> rect v1 h1 cv ch"
          unfolding m by (auto simp: rect_def p)
        with dis have "s p \<notin> rect v2 h2 cv ch" by blast
        with in1 have "s (s p) = (v2 + (fst (s p) - v1), h2 + (snd (s p) - h1))"
          by (simp add: s_def)
        with True in1 show ?thesis
          unfolding m by (auto simp: rect_def p)
      next
        case False
        with that have in1: "p \<in> rect v1 h1 cv ch" by blast
        with False have m: "s p = (v2 + (i - v1), h2 + (j - h1))"
          by (simp add: s_def p)
        from in1 have in2: "s p \<in> rect v2 h2 cv ch"
          unfolding m by (auto simp: rect_def p)
        then have "s (s p) = (v1 + (fst (s p) - v2), h1 + (snd (s p) - h2))"
          by (simp add: s_def)
        with in1 in2 show ?thesis
          unfolding m by (auto simp: rect_def p)
      qed
    next
      assume same: "(v1, h1) = (v2, h2)"
      with that have "p \<in> rect v2 h2 cv ch" by simp
      then have "s p = p"
        using same by (auto simp: s_def rect_def p)
      with that show ?thesis by simp
    qed
  qed
  have ms: "image_mset (\<lambda>(i, j). elem out n c i j) (mset_set ?A)
           = image_mset (\<lambda>(i, j). elem x n c i j) (mset_set ?A)"
  proof -
    have "(\<lambda>(i, j). elem out n c i j) = (\<lambda>p. (\<lambda>(i, j). elem x n c i j) (s p))"
      by (auto simp: px fun_eq_iff split: prod.splits)
    then show ?thesis
      using involution_image_mset [of ?A s "\<lambda>(i, j). elem x n c i j"] inv by simp
  qed
  have outside: "elem out n c i j = elem x n c i j" if "(i, j) \<notin> ?A" for i j
    using that px [of i j] by (simp add: s_def)
  have "sum (\<lambda>(i, j). elem out n c i j) ?A = sum (\<lambda>(i, j). elem x n c i j) ?A"
    unfolding sum_unfold_sum_mset ms ..
  with ms outside show ?thesis
    by blast
qed

text \<open>
  C9. When the two sampled regions do not overlap, or are one and the same, the swapped
  image of \<^verbatim>\<open>SwapCrops.forward\<close> permutes the pixels of the original over the union of the
  two regions: in every batch item and channel the multiset of pixel values over the union,
  and so their sum, is that of the original. Whatever the regions are, every pixel outside
  both is unchanged.
\<close>

theorem SwapCrops_permutes_separate_regions:
  assumes fw: "SwapCrops_forward self x d = Inr (out, loss_mask)"
    and lay: "swap_layout self x d = ((cv, ch), (v1, h1), (v2, h2))"
    and n: "n < dim_b x" and c: "c < dim_c x"
  shows "(rect v1 h1 cv ch \<inter> rect v2 h2 cv ch = {} \<or> (v1, h1) = (v2, h2) \<longrightarrow>
           image_mset (\<lambda>(i, j). elem out n c i j) (mset_set (rect v1 h1 cv ch \<union> rect v2 h2 cv ch))
             = image_mset (\<lambda>(i, j). elem x n c i j) (mset_set (rect v1 h1 cv ch \<union> rect v2 h2 cv ch))
           \<and> (\<Sum>(i, j) \<in> rect v1 h1 cv ch \<union> rect v2 h2 cv ch. elem out n c i j)
             = (\<Sum>(i, j) \<in> rect v1 h1 cv ch \<union> rect v2 h2 cv ch. elem x n c i j))
       \<and> (\<forall>i j. (i, j) \<notin> rect v1 h1 cv ch \<union> rect v2 h2 cv ch \<longrightarrow> elem out n c i j = elem x n c i j)"
proof (rule conjI)
  show "rect v1 h1 cv ch \<inter> rect v2 h2 cv ch = {} \<or> (v1, h1) = (v2, h2) \<longrightarrow>
           image_mset (\<lambda>(i, j). elem out n c i j) (mset_set (rect v1 h1 cv ch \<union> rect v2 h2 cv ch))
             = image_mset (\<lambda>(i, j). elem x n c i j) (mset_set (rect v1 h1 cv ch \<union> rect v2 h2 cv ch))
           \<and> (\<Sum>(i, j) \<in> rect v1 h1 cv ch \<union> rect v2 h2 cv ch. elem out n c i j)
             = (\<Sum>(i, j) \<in> rect v1 h1 cv ch \<union> rect v2 h2 cv ch. elem x n c i j)"
    using swap_permutes_when_separate [OF fw lay _ n c] by blast
  show "\<forall>i j. (i, j) \<notin> rect v1 h1 cv ch \<union> rect v2 h2 cv ch \<longrightarrow> elem out n c i j = elem x n c i j"
    using SwapCrops_forward_result(3) [OF fw lay n c] by simp
qed

theorem SwapCrops_permutes_separate_regions_witness:
  "\<exists>out loss_mask.
     SwapCrops_forward (SwapCrops_init 1 3 5)
        \<lparr>dim_b = 1, dim_c = 1, dim_h = 3, dim_w = 4, elem = (\<lambda>n c i j. real (4 * i + j + 1))\<rparr>
        \<lparr>rand_2 = (0, 1/2), draws_1 = (0, 0), draws_2 = (1, 0)\<rparr> = Inr (out, loss_mask)
     \<and> image_mset (\<lambda>(i, j). elem out 0 0 i j) (mset_set (rect 0 0 1 2 \<union> rect 1 0 1 2))
         = image_mset (\<lambda>(i, j). real (4 * i + j + 1)) (mset_set (rect 0 0 1 2 \<union> rect 1 0 1 2))"
proof -
  define T where "T = \<lparr>dim_b = 1, dim_c = 1, dim_h = 3, dim_w = 4,
                       elem = (\<lambda>n c i j. real (4 * i + j + 1))\<rparr>"
  define D where "D = \<lparr>rand_2 = (0::real, 1/2::real), draws_1 = (0::nat, 0::nat), draws_2 = (1::nat, 0::nat)\<rparr>"
  have dims: "dim_b T = 1" "dim_c T = 1" "dim_h T = 3" "dim_w T = 4"
    by (simp_all add: T_def)
  have cs: "swap_crop_size (SwapCrops_init 1 3 5) D = (1, 2)"
    by (simp add: swap_crop_size_def SwapCrops_init_def D_def np_uint32_def)
  have lay: "swap_layout (SwapCrops_init 1 3 5) T D = ((1, 2), (0, 0), (1, 0))"
    by (simp add: swap_layout_def cs dims) (simp add: D_def)
  obtain out lm where fw: "SwapCrops_forward (SwapCrops_init 1 3 5) T D = Inr (out, lm)"
    using SwapCrops_forward_returns [OF cs, of T]
    by (auto simp: dims SwapCrops_init_def RandomCrop_init_def)
  have sep: "rect 0 0 1 2 \<inter> rect 1 0 1 2 = {} \<or> (0::nat, 0::nat) = (1, 0)"
    by (auto simp: rect_def)
  have n: "0 < dim_b T" "0 < dim_c T"
    by (simp_all add: dims)
  from SwapCrops_permutes_separate_regions [OF fw lay n] sep
  have "image_mset (\<lambda>(i, j). elem out 0 0 i j) (mset_set (rect 0 0 1 2 \<union> rect 1 0 1 2))
         = image_mset (\<lambda>(i, j). elem T 0 0 i j) (mset_set (rect 0 0 1 2 \<union> rect 1 0 1 2))"
    by simp
  then have "image_mset (\<lambda>(i, j). elem out 0 0 i j) (mset_set (rect 0 0 1 2 \<union> rect 1 0 1 2))
         = image_mset (\<lambda>(i, j). real (4 * i + j + 1)) (mset_set (rect 0 0 1 2 \<union> rect 1 0 1 2))"
    by (simp add: T_def)
  with fw show ?thesis
    unfolding T_def D_def by blast
qed

text \<open>
  Two 1 by 2 regions at columns 0 and 1 of the first row of a 2 by 4 image with the rows
  \<open>1 2 3 4\<close> and \<open>5 6 7 8\<close> overlap in one pixel. The first row of the swapped image is
  \<open>2 1 2 4\<close>: over the union of the regions, the columns 0 to 2, the values \<open>1 2 3\<close> have
  become \<open>2 1 2\<close>, and their sum 6 has become 5.
\<close>

theorem SwapCrops_overlapping_regions_lose_pixels:
  "map_sum id (\<lambda>(out, loss_mask). [elem out 0 0 0 0, elem out 0 0 0 1, elem out 0 0 0 2, elem out 0 0 0 3])
     (SwapCrops_forward (SwapCrops_init 1 3 5)
        \<lparr>dim_b = 1, dim_c = 1, dim_h = 2, dim_w = 4, elem = (\<lambda>n c i j. real (4 * i + j + 1))\<rparr>
        \<lparr>rand_2 = (0, 1/2), draws_1 = (0, 0), draws_2 = (0, 1)\<rparr>)
     = Inr [2, 1, 2, 4]
   \<and> swap_layout (SwapCrops_init 1 3 5)
        \<lparr>dim_b = 1, dim_c = 1, dim_h = 2, dim_w = 4, elem = (\<lambda>n c i j. real (4 * i + j + 1))\<rparr>
        \<lparr>rand_2 = (0, 1/2), draws_1 = (0, 0), draws_2 = (0, 1)\<rparr>
     = ((1, 2), (0, 0), (0, 1))
   \<and> rect 0 0 1 2 \<union> rect 0 1 1 2 = {(0, 0), (0, 1), (0, 2)}"
proof -
  define T where "T = \<lparr>dim_b = 1, dim_c = 1, dim_h = 2, dim_w = 4,
                       elem = (\<lambda>n c i j. real (4 * i + j + 1))\<rparr>"
  define D where "D = \<lparr>rand_2 = (0::real, 1/2::real), draws_1 = (0::nat, 0::nat), draws_2 = (0::nat, 1::nat)\<rparr>"
  have dims: "dim_b T = 1" "dim_c T = 1" "dim_h T = 2" "dim_w T = 4"
    by (simp_all add: T_def)
  have cs: "swap_crop_size (SwapCrops_init 1 3 5) D = (1, 2)"
    by (simp add: swap_crop_size_def SwapCrops_init_def D_def np_uint32_def)
  have lay: "swap_layout (SwapCrops_init 1 3 5) T D = ((1, 2), (0, 0), (0, 1))"
    by (simp add: swap_layout_def cs dims) (simp add: D_def)
  obtain out lm where fw: "SwapCrops_forward (SwapCrops_init 1 3 5) T D = Inr (out, lm)"
    using SwapCrops_forward_returns [OF cs, of T]
    by (auto simp: dims SwapCrops_init_def RandomCrop_init_def)
  have n: "0 < dim_b T" "0 < dim_c T"
    by (simp_all add: dims)
  note px = SwapCrops_forward_result(3) [OF fw lay n]
  have "elem out 0 0 0 0 = 2" "elem out 0 0 0 1 = 1" "elem out 0 0 0 2 = 2" "elem out 0 0 0 3 = 4"
    by (simp_all add: px rect_def T_def)
  moreover have "rect 0 0 1 2 \<union> rect 0 1 1 2 = {(0, 0), (0, 1), (0::nat, 2::nat)}"
    by (auto simp: rect_def)
  ultimately show ?thesis
    using lay unfolding T_def [symmetric] D_def [symmetric] fw by simp
qed

lemma in_slice_nonneg:
  assumes "0 \<le> a" "0 \<le> b" "i < n"
  shows "in_slice a b n i \<longleftrightarrow> a \<le> int i \<and> int i < b"
  using assms by (auto simp: in_slice_def slice_bound_def)

lemma in_slice_span:
  assumes "i < n"
  shows "in_slice (int a) (int a + int k) n i \<longleftrightarrow> i \<in> {a..<a + k}"
  using assms by (subst in_slice_nonneg) auto

lemma in_slice_around:
  assumes "i < n" "mw \<le> a"
  shows "in_slice (int a - int mw) (int a + int mw) n i \<longleftrightarrow> i \<in> {a - mw..<a - mw + 2 * mw}"
  using assms by (subst in_slice_nonneg) auto

lemma in_slice_around_end:
  assumes "i < n" "mw \<le> k"
  shows "in_slice (int a + int k - int mw) (int a + int k + int mw) n i
           \<longleftrightarrow> i \<in> {a + k - mw..<a + k - mw + 2 * mw}"
  using assms by (subst in_slice_nonneg) auto

lemma draw_lines_bands:
  assumes "mw \<le> v" "mw \<le> h" "mw \<le> cv" "mw \<le> ch" "i < dim_h t" "j < dim_w t"
  shows "elem (draw_lines t (int mw) (int v) (int h) (int cv) (int ch)) n c i j =
           (if (i, j) \<in> border_bands mw v h cv ch then 0 else elem t n c i j)"
proof -
  have "(i, j) \<in> border_bands mw v h cv ch \<longleftrightarrow>
      in_slice (int v + int cv - int mw) (int v + int cv + int mw) (dim_h t) i
        \<and> in_slice (int h) (int h + int ch) (dim_w t) j
      \<or> in_slice (int v) (int v + int cv) (dim_h t) i
        \<and> in_slice (int h + int ch - int mw) (int h + int ch + int mw) (dim_w t) j
      \<or> in_slice (int v - int mw) (int v + int mw) (dim_h t) i
        \<and> in_slice (int h) (int h + int ch) (dim_w t) j
      \<or> in_slice (int v) (int v + int cv) (dim_h t) i
        \<and> in_slice (int h - int mw) (int h + int mw) (dim_w t) j"
    unfolding in_slice_span [OF assms(5)] in_slice_span [OF assms(6)]
      in_slice_around [OF assms(5) assms(1)] in_slice_around [OF assms(6) assms(2)]
      in_slice_around_end [OF assms(5) assms(3)] in_slice_around_end [OF assms(6) assms(4)]
      border_bands_def rect_def
    by blast
  then show ?thesis
    by (simp only: draw_lines_elem)
qed

text \<open>
  Where both regions lie at least \<open>mw\<close> pixels from the top and the left border of the
  image and are at least \<open>mw\<close> pixels high and wide, no slice starts below zero, and the
  mask is 0 exactly on the border bands of the two regions.
\<close>

lemma SwapCrops_mask_away_from_border:
  assumes fw: "SwapCrops_forward self x d = Inr (out, loss_mask)"
    and lay: "swap_layout self x d = ((cv, ch), (v1, h1), (v2, h2))"
    and mw: "mask_width self = int mw"
    and far: "mw \<le> v1" "mw \<le> h1" "mw \<le> v2" "mw \<le> h2" "mw \<le> cv" "mw \<le> ch"
    and ij: "i < dim_h x" "j < dim_w x"
  shows "elem loss_mask n c i j =
           (if (i, j) \<in> border_bands mw v1 h1 cv ch \<union> border_bands mw v2 h2 cv ch then 0 else 1)"
proof -
  have od: "dim_h (ones_like x) = dim_h x" "dim_w (ones_like x) = dim_w x"
    "elem (ones_like x) n c i j = 1"
    by (simp_all add: ones_like_def)
  show ?thesis
    unfolding SwapCrops_forward_result(2) [OF fw lay] mw
    using far ij by (simp add: draw_lines_bands od)
qed

section \<open>Properties of the rescale blocks and the generator\<close>

lemma conv_block_shape:
  assumes "dim_c t = c_in" "2 \<le> dim_h t" "2 \<le> dim_w t"
  shows "\<exists>t'. sequential tr [ReflectionPad2d 1, SpectralNormConv2d c_in c_out 3 w b,
                               BatchNorm2d c_out s, LeakyReLU a] t
              = Inr t'
           \<and> dim_b t' = dim_b t \<and> dim_c t' = c_out \<and> dim_h t' = dim_h t \<and> dim_w t' = dim_w t"
  using assms by (simp add: reflection_pad_def conv2d_def and_then_def)

lemma conv_stage_down:
  assumes "dim_c t = base * 2 ^ i" "2 \<le> dim_h t" "2 \<le> dim_w t"
  shows "\<exists>t'. sequential tr (conv_stage (1 / 2) base ub ps i) t = Inr t'
           \<and> dim_b t' = dim_b t \<and> dim_c t' = base * 2 ^ Suc i \<and> dim_h t' = dim_h t \<and> dim_w t' = dim_w t"
  using conv_block_shape [OF assms, of tr "base * 2 ^ Suc i"]
  by (simp add: conv_stage_def)

lemma conv_stage_up:
  assumes "dim_c t = base * 2 ^ Suc i" "2 \<le> dim_h t" "2 \<le> dim_w t"
  shows "\<exists>t'. sequential tr (conv_stage 2 base ub ps i) t = Inr t'
           \<and> dim_b t' = dim_b t \<and> dim_c t' = base * 2 ^ i \<and> dim_h t' = dim_h t \<and> dim_w t' = dim_w t"
  using conv_block_shape [OF assms, of tr "base * 2 ^ i"]
  by (simp add: conv_stage_def)

lemma max_pool_shape:
  assumes "dim_h t = 2 * a" "dim_w t = 2 * c" "0 < a" "0 < c"
  shows "\<exists>t'. max_pool t = Inr t' \<and> dim_b t' = dim_b t \<and> dim_c t' = dim_c t
           \<and> dim_h t' = a \<and> dim_w t' = c"
  using assms by (simp add: max_pool_def)

lemma interpolate_double:
  assumes "0 < dim_h t" "0 < dim_w t"
  shows "\<exists>t'. interpolate_nearest t 2 = Inr t' \<and> dim_b t' = dim_b t \<and> dim_c t' = dim_c t
           \<and> dim_h t' = 2 * dim_h t \<and> dim_w t' = 2 * dim_w t"
proof -
  have d: "nat \<lfloor>real k * 2\<rfloor> = 2 * k" for k
  proof -
    have "real k * 2 = of_int (int (2 * k))" by simp
    then show ?thesis by (simp only: floor_of_int nat_int)
  qed
  show ?thesis
    using assms by (simp add: interpolate_nearest_def d)
qed

lemma binop_dims:
  assumes "dim_b x = dim_b y" "dim_c x = dim_c y" "dim_h x = dim_h y" "dim_w x = dim_w y"
  shows "\<exists>z. binop f x y = Inr z \<and> dim_b z = dim_b x \<and> dim_c z = dim_c x
           \<and> dim_h z = dim_h x \<and> dim_w z = dim_w x"
  using assms by (simp add: binop_def bdim_same)

lemma down_loop:
  assumes "dim_c fm = base * 2 ^ k" "dim_h fm = a * 2 ^ m" "dim_w fm = c * 2 ^ m" "0 < a" "0 < c"
  shows "\<exists>fm' rest.
           RescaleBlock_loop tr (1 / 2) pyr ret False
             (map (conv_stage (1 / 2) base ub ps) [k..<k + m]) i fm acc
             = Inr (fm', if ret then acc @ rest else acc)
         \<and> dim_b fm' = dim_b fm \<and> dim_c fm' = base * 2 ^ (k + m) \<and> dim_h fm' = a \<and> dim_w fm' = c
         \<and> length rest = m
         \<and> (\<forall>j<m. dim_b (rest ! j) = dim_b fm \<and> dim_c (rest ! j) = base * 2 ^ (k + Suc j)
                  \<and> dim_h (rest ! j) = a * 2 ^ (m - Suc j) \<and> dim_w (rest ! j) = c * 2 ^ (m - Suc j))"
  using assms
proof (induction m arbitrary: k fm acc i)
  case 0
  then show ?case
    by (intro exI [of _ fm] exI [of _ "[]"]) simp
next
  case (Suc m)
  have ge: "2 \<le> dim_h fm" "2 \<le> dim_w fm"
    using Suc.prems by simp_all
  from conv_stage_down [OF Suc.prems(1) ge, of tr ub ps]
  obtain fm2 where fm2: "sequential tr (conv_stage (1 / 2) base ub ps k) fm = Inr fm2"
    and d2: "dim_b fm2 = dim_b fm" "dim_c fm2 = base * 2 ^ Suc k" "dim_h fm2 = dim_h fm"
      "dim_w fm2 = dim_w fm"
    by blast
  have "dim_h fm2 = 2 * (a * 2 ^ m)" "dim_w fm2 = 2 * (c * 2 ^ m)" "0 < a * 2 ^ m" "0 < c * 2 ^ m"
    using d2 Suc.prems by simp_all
  from max_pool_shape [OF this]
  obtain fm4 where fm4: "max_pool fm2 = Inr fm4"
    and d4: "dim_b fm4 = dim_b fm2" "dim_c fm4 = dim_c fm2" "dim_h fm4 = a * 2 ^ m"
      "dim_w fm4 = c * 2 ^ m"
    by blast
  from Suc.IH [of fm4 "Suc k" "Suc i" "if ret then acc @ [fm4] else acc"] d4 d2 Suc.prems(4,5)
  obtain fm' rest where
    loop: "RescaleBlock_loop tr (1 / 2) pyr ret False
             (map (conv_stage (1 / 2) base ub ps) [Suc k..<Suc k + m]) (Suc i) fm4
             (if ret then acc @ [fm4] else acc)
             = Inr (fm', if ret then (if ret then acc @ [fm4] else acc) @ rest
                         else (if ret then acc @ [fm4] else acc))"
    and d: "dim_b fm' = dim_b fm4" "dim_c fm' = base * 2 ^ (Suc k + m)" "dim_h fm' = a" "dim_w fm' = c"
    and len: "length rest = m"
    and lv: "\<forall>j<m. dim_b (rest ! j) = dim_b fm4 \<and> dim_c (rest ! j) = base * 2 ^ (Suc k + Suc j)
                  \<and> dim_h (rest ! j) = a * 2 ^ (m - Suc j) \<and> dim_w (rest ! j) = c * 2 ^ (m - Suc j)"
    by auto
  have list: "[k..<k + Suc m] = k # [Suc k..<Suc k + m]"
    by (simp add: upt_conv_Cons)
  have run: "RescaleBlock_loop tr (1 / 2) pyr ret False
             (map (conv_stage (1 / 2) base ub ps) [k..<k + Suc m]) i fm acc
             = Inr (fm', if ret then acc @ (fm4 # rest) else acc)"
    unfolding list using loop by (simp add: fm2 fm4 and_then_def)
  have lv': "\<forall>j<Suc m. dim_b ((fm4 # rest) ! j) = dim_b fm
                  \<and> dim_c ((fm4 # rest) ! j) = base * 2 ^ (k + Suc j)
                  \<and> dim_h ((fm4 # rest) ! j) = a * 2 ^ (Suc m - Suc j)
                  \<and> dim_w ((fm4 # rest) ! j) = c * 2 ^ (Suc m - Suc j)"
  proof (intro allI impI)
    fix j assume "j < Suc m"
    show "dim_b ((fm4 # rest) ! j) = dim_b fm
                  \<and> dim_c ((fm4 # rest) ! j) = base * 2 ^ (k + Suc j)
                  \<and> dim_h ((fm4 # rest) ! j) = a * 2 ^ (Suc m - Suc j)
                  \<and> dim_w ((fm4 # rest) ! j) = c * 2 ^ (Suc m - Suc j)"
    proof (cases j)
      case 0
      then show ?thesis using d4 d2 by simp
    next
      case (Suc j')
      with \<open>j < Suc m\<close> have "j' < m" by simp
      with lv d4 d2 show ?thesis unfolding Suc by simp
    qed
  qed
  show ?case
    apply (rule exI [of _ fm'], rule exI [of _ "fm4 # rest"])
    using run d d4 d2 len lv' by simp
qed

lemma up_loop:
  assumes "dim_c fm = base * 2 ^ m" "dim_h fm = hh" "dim_w fm = ww" "0 < hh" "0 < ww"
    and "skip' \<longrightarrow> pyr = Some p \<and> i + m + 1 = length p
           \<and> (\<forall>j<m. dim_b (p ! j) = dim_b fm \<and> dim_c (p ! j) = base * 2 ^ j
                    \<and> dim_h (p ! j) = hh * 2 ^ (m - j) \<and> dim_w (p ! j) = ww * 2 ^ (m - j))"
  shows "\<exists>fm'. RescaleBlock_loop tr 2 pyr False skip'
                 (rev (map (conv_stage 2 base ub ps) [0..<m])) i fm acc = Inr (fm', acc)
         \<and> dim_b fm' = dim_b fm \<and> dim_c fm' = base \<and> dim_h fm' = hh * 2 ^ m \<and> dim_w fm' = ww * 2 ^ m"
  using assms
proof (induction m arbitrary: fm i hh ww)
  case 0
  then show ?case by simp
next
  case (Suc m)
  from interpolate_double [of fm] Suc.prems(2-5)
  obtain fm1 where fm1: "interpolate_nearest fm 2 = Inr fm1"
    and d1: "dim_b fm1 = dim_b fm" "dim_c fm1 = dim_c fm" "dim_h fm1 = 2 * hh" "dim_w fm1 = 2 * ww"
    by auto
  have "dim_c fm1 = base * 2 ^ Suc m" "2 \<le> dim_h fm1" "2 \<le> dim_w fm1"
    using d1 Suc.prems(1,4,5) by simp_all
  from conv_stage_up [OF this, of tr ub ps]
  obtain fm2 where fm2: "sequential tr (conv_stage 2 base ub ps m) fm1 = Inr fm2"
    and d2: "dim_b fm2 = dim_b fm1" "dim_c fm2 = base * 2 ^ m" "dim_h fm2 = dim_h fm1"
      "dim_w fm2 = dim_w fm1"
    by blast
  have "\<exists>fm3. (if skip'
               then (case pyr of
                       None \<Rightarrow> Inl TypeError
                     | Some p \<Rightarrow> if i + 2 \<le> length p
                                then binop (+) fm2 (p ! (length p - (i + 2)))
                                else Inl IndexError)
               else Inr fm2) = Inr fm3
          \<and> dim_b fm3 = dim_b fm \<and> dim_c fm3 = base * 2 ^ m \<and> dim_h fm3 = 2 * hh \<and> dim_w fm3 = 2 * ww"
  proof (cases skip')
    case False
    then show ?thesis using d2 d1 by simp
  next
    case True
    with Suc.prems(6) have py: "pyr = Some p" "i + Suc m + 1 = length p"
      and lv: "dim_b (p ! m) = dim_b fm \<and> dim_c (p ! m) = base * 2 ^ m
                    \<and> dim_h (p ! m) = hh * 2 ^ (Suc m - m) \<and> dim_w (p ! m) = ww * 2 ^ (Suc m - m)"
      by auto
    from py have ix: "length p - (i + 2) = m" "i + 2 \<le> length p"
      by linarith+
    have "dim_b fm2 = dim_b (p ! m)" "dim_c fm2 = dim_c (p ! m)" "dim_h fm2 = dim_h (p ! m)"
      "dim_w fm2 = dim_w (p ! m)"
      using lv d2 d1 by simp_all
    from binop_dims [OF this, of "(+)"] d2 d1 True py ix show ?thesis
      by auto
  qed
  then obtain fm3 where fm3: "(if skip'
               then (case pyr of
                       None \<Rightarrow> Inl TypeError
                     | Some p \<Rightarrow> if i + 2 \<le> length p
                                then binop (+) fm2 (p ! (length p - (i + 2)))
                                else Inl IndexError)
               else Inr fm2) = Inr fm3"
    and d3: "dim_b fm3 = dim_b fm" "dim_c fm3 = base * 2 ^ m" "dim_h fm3 = 2 * hh" "dim_w fm3 = 2 * ww"
    by blast
  have pre: "skip' \<longrightarrow> pyr = Some p \<and> Suc i + m + 1 = length p
           \<and> (\<forall>j<m. dim_b (p ! j) = dim_b fm3 \<and> dim_c (p ! j) = base * 2 ^ j
                    \<and> dim_h (p ! j) = (2 * hh) * 2 ^ (m - j) \<and> dim_w (p ! j) = (2 * ww) * 2 ^ (m - j))"
  proof
    assume s: skip'
    with Suc.prems(6) have py: "pyr = Some p" "i + Suc m + 1 = length p"
      and lv: "\<forall>j<Suc m. dim_b (p ! j) = dim_b fm \<and> dim_c (p ! j) = base * 2 ^ j
                    \<and> dim_h (p ! j) = hh * 2 ^ (Suc m - j) \<and> dim_w (p ! j) = ww * 2 ^ (Suc m - j)"
      by auto
    have "dim_b (p ! j) = dim_b fm3 \<and> dim_c (p ! j) = base * 2 ^ j
                    \<and> dim_h (p ! j) = (2 * hh) * 2 ^ (m - j) \<and> dim_w (p ! j) = (2 * ww) * 2 ^ (m - j)"
      if "j < m" for j
    proof -
      from that have "Suc m - j = Suc (m - j)" by simp
      with lv that d3 show ?thesis by simp
    qed
    with py show "pyr = Some p \<and> Suc i + m + 1 = length p
           \<and> (\<forall>j<m. dim_b (p ! j) = dim_b fm3 \<and> dim_c (p ! j) = base * 2 ^ j
                    \<and> dim_h (p ! j) = (2 * hh) * 2 ^ (m - j) \<and> dim_w (p ! j) = (2 * ww) * 2 ^ (m - j))"
      by simp
  qed
  have "0 < 2 * hh" "0 < 2 * ww"
    using Suc.prems(4,5) by simp_all
  from Suc.IH [of fm3 "2 * hh" "2 * ww" "Suc i", OF d3(2) d3(3) d3(4) this pre]
  obtain fm' where loop: "RescaleBlock_loop tr 2 pyr False skip'
                 (rev (map (conv_stage 2 base ub ps) [0..<m])) (Suc i) fm3 acc = Inr (fm', acc)"
    and d: "dim_b fm' = dim_b fm3" "dim_c fm' = base" "dim_h fm' = 2 * hh * 2 ^ m"
      "dim_w fm' = 2 * ww * 2 ^ m"
    by blast
  have "RescaleBlock_loop tr 2 pyr False skip'
                 (rev (map (conv_stage 2 base ub ps) [0..<Suc m])) i fm acc = Inr (fm', acc)"
    using loop by (simp add: fm1 fm2 fm3 and_then_def)
  with d d3 show ?case
    by simp
qed

lemma collect_sequential:
  assumes "\<forall>x\<in>set xs. list_all constructs (f x)"
  shows "collect (map (\<lambda>x. nn_Sequential (f x)) xs) = Inr (map f xs)"
  using assms by (induction xs) (simp_all add: nn_Sequential_def and_then_def)

lemma collect_sequential_result:
  "collect (map (\<lambda>x. nn_Sequential (f x)) xs) = Inr ys \<Longrightarrow> ys = map f xs"
proof (induction xs arbitrary: ys)
  case Nil
  then show ?case by simp
next
  case (Cons x xs)
  from Cons.prems obtain vs where "collect (map (\<lambda>x. nn_Sequential (f x)) xs) = Inr vs"
    and "ys = f x # vs"
    by (auto simp: and_then_Inr nn_Sequential_def split: if_splits)
  with Cons.IH [of vs] show ?case
    by simp
qed

lemma conv_stage_constructs: "0 < base \<Longrightarrow> list_all constructs (conv_stage sc base ub ps i)"
  by (simp add: conv_stage_def)

lemma RescaleBlock_init_returns:
  assumes "0 < base"
  shows "RescaleBlock_init n sc base ub ps =
           Inr \<lparr>scale = sc,
                conv_layers = (if sc > 1 then rev (map (conv_stage sc base ub ps) [0..<n])
                               else map (conv_stage sc base ub ps) [0..<n])\<rparr>"
proof -
  have "collect (map (\<lambda>i. nn_Sequential (conv_stage sc base ub ps i)) [0..<n])
      = Inr (map (conv_stage sc base ub ps) [0..<n])"
    using assms by (intro collect_sequential) (simp add: conv_stage_constructs)
  then show ?thesis
    by (simp add: RescaleBlock_init_def and_then_def)
qed

lemma RescaleBlock_init_result:
  assumes "RescaleBlock_init n sc base ub ps = Inr blk"
  shows "blk = \<lparr>scale = sc,
                conv_layers = (if sc > 1 then rev (map (conv_stage sc base ub ps) [0..<n])
                               else map (conv_stage sc base ub ps) [0..<n])\<rparr>"
proof -
  from assms obtain stages where
    c: "collect (map (\<lambda>i. nn_Sequential (conv_stage sc base ub ps i)) [0..<n]) = Inr stages"
    and b: "blk = \<lparr>scale = sc, conv_layers = (if sc > 1 then rev stages else stages)\<rparr>"
    by (auto simp: RescaleBlock_init_def and_then_Inr)
  from collect_sequential_result [OF c] b show ?thesis
    by simp
qed

lemma down_then_up_returns:
  assumes "dim_c x = base" "2 ^ n dvd dim_h x" "2 ^ n dvd dim_w x" "0 < dim_h x" "0 < dim_w x"
    and base: "0 < base"
  shows "\<exists>y. down_then_up tr n base ps_down ps_up x = Inr y
           \<and> dim_h y = dim_h x \<and> dim_w y = dim_w x"
proof -
  from assms(2,4) obtain a where a: "dim_h x = a * 2 ^ n" "0 < a"
    by (metis dvd_def mult.commute mult_zero_left neq0_conv)
  from assms(3,5) obtain c where c: "dim_w x = c * 2 ^ n" "0 < c"
    by (metis dvd_def mult.commute mult_zero_left neq0_conv)
  have c0: "dim_c x = base * 2 ^ 0"
    using assms(1) by simp
  from down_loop [where tr = tr and pyr = None and ret = True and ub = True and ps = ps_down
      and i = 0 and acc = "[x]", OF c0 a(1) c(1) a(2) c(2)]
  obtain fm rest where
    down: "RescaleBlock_loop tr (1 / 2) None True False
             (map (conv_stage (1 / 2) base True ps_down) [0..<n]) 0 x [x] = Inr (fm, [x] @ rest)"
    and d: "dim_b fm = dim_b x" "dim_c fm = base * 2 ^ n" "dim_h fm = a" "dim_w fm = c"
    and len: "length rest = n"
    and lv: "\<forall>j<n. dim_b (rest ! j) = dim_b x \<and> dim_c (rest ! j) = base * 2 ^ Suc j
                  \<and> dim_h (rest ! j) = a * 2 ^ (n - Suc j) \<and> dim_w (rest ! j) = c * 2 ^ (n - Suc j)"
    by auto
  have fdown: "RescaleBlock_forward tr
        \<lparr>scale = 1 / 2, conv_layers = map (conv_stage (1 / 2) base True ps_down) [0..<n]\<rparr>
        x None True False
      = Inr (fm, Some (x # rest))"
    using down by (simp add: RescaleBlock_forward_def and_then_def)
  have lvp: "dim_b ((x # rest) ! j) = dim_b fm \<and> dim_c ((x # rest) ! j) = base * 2 ^ j \<and>
        dim_h ((x # rest) ! j) = a * 2 ^ (n - j) \<and> dim_w ((x # rest) ! j) = c * 2 ^ (n - j)"
    if j: "j < n" for j
  proof (cases j)
    case 0
    then show ?thesis
      using d a c assms(1) by simp
  next
    case (Suc j')
    with j have "j' < n" by simp
    with lv d show ?thesis
      unfolding Suc by simp
  qed
  have pyr: "True \<longrightarrow> Some (x # rest) = Some (x # rest) \<and> 0 + n + 1 = length (x # rest)
           \<and> (\<forall>j<n. dim_b ((x # rest) ! j) = dim_b fm \<and> dim_c ((x # rest) ! j) = base * 2 ^ j
                    \<and> dim_h ((x # rest) ! j) = a * 2 ^ (n - j) \<and> dim_w ((x # rest) ! j) = c * 2 ^ (n - j))"
    using lvp len by simp
  from up_loop [where tr = tr and ub = True and ps = ps_up and acc = "[]",
      OF d(2) d(3) d(4) a(2) c(2) pyr]
  obtain y where up: "RescaleBlock_loop tr 2 (Some (x # rest)) False True
                 (rev (map (conv_stage 2 base True ps_up) [0..<n])) 0 fm [] = Inr (y, [])"
    and dy: "dim_h y = a * 2 ^ n" "dim_w y = c * 2 ^ n"
    by auto
  have fup: "RescaleBlock_forward tr
        \<lparr>scale = 2, conv_layers = rev (map (conv_stage 2 base True ps_up) [0..<n])\<rparr>
        fm (Some (x # rest)) False True
      = Inr (y, None)"
    using up by (simp add: RescaleBlock_forward_def and_then_def)
  have "down_then_up tr n base ps_down ps_up x = Inr y"
    by (simp add: down_then_up_def RescaleBlock_init_returns [OF base] fdown fup and_then_def)
  with dy a c show ?thesis
    by simp
qed

lemma loop_all_scales:
  "RescaleBlock_loop tr sc pyr True sk stages i fm acc = Inr (fm', acc')
     \<Longrightarrow> \<exists>rest. acc' = acc @ rest \<and> length rest = length stages"
proof (induction stages arbitrary: i fm acc)
  case Nil
  then show ?case by simp
next
  case (Cons l stages)
  from Cons.prems obtain fm4 where
    "RescaleBlock_loop tr sc pyr True sk stages (Suc i) fm4 (acc @ [fm4]) = Inr (fm', acc')"
    by (auto simp: and_then_Inr)
  from Cons.IH [OF this] obtain rest where "acc' = (acc @ [fm4]) @ rest" "length rest = length stages"
    by blast
  then show ?case
    by (intro exI [of _ "fm4 # rest"]) simp
qed

lemma up_loop_last_add:
  assumes "RescaleBlock_loop tr 2 (Some p) ret True stages i fm acc = Inr (y, acc')"
    and "stages \<noteq> []"
  shows "i + length stages + 1 \<le> length p
       \<and> (\<exists>fm2. binop (+) fm2 (p ! (length p - (i + length stages + 1))) = Inr y)"
  using assms
proof (induction stages arbitrary: i fm acc)
  case Nil
  then show ?case by simp
next
  case (Cons l stages)
  from Cons.prems(1) obtain fm2 fm3 acc2 where
    ix: "i + 2 \<le> length p"
    and add: "binop (+) fm2 (p ! (length p - (i + 2))) = Inr fm3"
    and rest: "RescaleBlock_loop tr 2 (Some p) ret True stages (Suc i) fm3 acc2 = Inr (y, acc')"
    by (cases ret) (auto simp: and_then_Inr split: if_splits)
  show ?case
  proof (cases "stages = []")
    case True
    with rest have "y = fm3" by simp
    with ix add True show ?thesis by auto
  next
    case False
    from Cons.IH [OF rest False] show ?thesis by simp
  qed
qed

lemma down_loop_first_stage:
  assumes "RescaleBlock_loop tr (1 / 2) pyr ret sk
             (conv_stage (1 / 2) base ub ps k # stages) i fm acc = Inr r"
  shows "2 \<le> dim_h fm \<and> 2 \<le> dim_w fm"
proof -
  from assms obtain fm2 where "sequential tr (conv_stage (1 / 2) base ub ps k) fm = Inr fm2"
    by (auto simp: and_then_Inr)
  then obtain t where "reflection_pad 1 1 1 1 fm = Inr t"
    by (auto simp: conv_stage_def and_then_Inr)
  then show ?thesis
    by (auto simp: reflection_pad_def split: if_splits)
qed

lemma binop_dims_right:
  assumes "binop f a b = Inr y" "dim_h b \<noteq> 1" "dim_w b \<noteq> 1"
  shows "dim_h y = dim_h b \<and> dim_w y = dim_w b"
  using assms
  by (auto simp: binop_def bdim_def split: option.splits if_splits)

lemma down_then_up_size_if_returns:
  assumes "down_then_up tr n base ps_down ps_up x = Inr y"
  shows "dim_h y = dim_h x \<and> dim_w y = dim_w x"
proof -
  from assms obtain downscale upscale r1 r2 where
    i1: "RescaleBlock_init n (1 / 2) base True ps_down = Inr downscale"
    and i2: "RescaleBlock_init n 2 base True ps_up = Inr upscale"
    and f1: "RescaleBlock_forward tr downscale x None True False = Inr r1"
    and f2: "RescaleBlock_forward tr upscale (fst r1) (snd r1) False True = Inr r2"
    and y: "y = fst r2"
    by (auto simp: down_then_up_def and_then_Inr split: prod.splits)
  note b1 = RescaleBlock_init_result [OF i1] and b2 = RescaleBlock_init_result [OF i2]
  show ?thesis
  proof (cases n)
    case 0
    with f1 f2 y show ?thesis
      unfolding b1 b2 by (auto simp: RescaleBlock_forward_def and_then_Inr)
  next
    case (Suc n')
    from f1 f2 y obtain fm acc acc2 where
      down: "RescaleBlock_loop tr (1 / 2) None True False
               (map (conv_stage (1 / 2) base True ps_down) [0..<n]) 0 x [x] = Inr (fm, acc)"
      and up: "RescaleBlock_loop tr 2 (Some acc) False True
                   (rev (map (conv_stage 2 base True ps_up) [0..<n])) 0 fm [] = Inr (y, acc2)"
      unfolding b1 b2
      by (auto simp: RescaleBlock_forward_def and_then_Inr split: prod.splits)
    from loop_all_scales [OF down] obtain rest where acc: "acc = [x] @ rest" "length rest = n"
      by auto
    have "[0..<n] = 0 # [1..<n]"
      using Suc by (simp add: upt_conv_Cons)
    with down have big: "2 \<le> dim_h x \<and> 2 \<le> dim_w x"
      using down_loop_first_stage [of tr None True False base True ps_down 0 _ 0 x "[x]"] by simp
    have ne: "rev (map (conv_stage 2 base True ps_up) [0..<n]) \<noteq> []"
      using Suc by simp
    from up_loop_last_add [OF up ne] acc
    obtain fm2 where "binop (+) fm2 x = Inr y"
      by auto
    from binop_dims_right [OF this] big show ?thesis
      by simp
  qed
qed

text \<open>
  C7. A downscale \<^verbatim>\<open>RescaleBlock\<close> followed by an upscale \<^verbatim>\<open>RescaleBlock\<close> with the same
  stage count \<open>n\<close> and base channels, the second fusing the pyramid of the first: whenever
  the composition returns an output, its height and width are those of the input; and for
  a positive base channel count it returns for every input tensor with that many channels
  whose height and width are positive multiples of \<open>2 ^ n\<close>.
\<close>

theorem down_then_up_size:
  "(down_then_up tr n base ps_down ps_up x = Inr y \<longrightarrow> dim_h y = dim_h x \<and> dim_w y = dim_w x)
   \<and> (0 < base \<and> dim_c x = base \<and> 2 ^ n dvd dim_h x \<and> 2 ^ n dvd dim_w x
        \<and> 0 < dim_h x \<and> 0 < dim_w x \<longrightarrow>
        (\<exists>y'. down_then_up tr n base ps_down ps_up x = Inr y'
              \<and> dim_h y' = dim_h x \<and> dim_w y' = dim_w x))"
proof (rule conjI)
  show "down_then_up tr n base ps_down ps_up x = Inr y \<longrightarrow> dim_h y = dim_h x \<and> dim_w y = dim_w x"
    by (rule impI) (rule down_then_up_size_if_returns)
  show "0 < base \<and> dim_c x = base \<and> 2 ^ n dvd dim_h x \<and> 2 ^ n dvd dim_w x
        \<and> 0 < dim_h x \<and> 0 < dim_w x \<longrightarrow>
        (\<exists>y'. down_then_up tr n base ps_down ps_up x = Inr y'
              \<and> dim_h y' = dim_h x \<and> dim_w y' = dim_w x)"
    using down_then_up_returns [of x base n tr ps_down ps_up] by simp
qed

theorem down_then_up_size_witness:
  "\<exists>y. down_then_up True 3 64
          (\<lambda>i. \<lparr>weight = (\<lambda>out c di dj. 0), bias = (\<lambda>out. 0), stat = (\<lambda>t. elem t)\<rparr>)
          (\<lambda>i. \<lparr>weight = (\<lambda>out c di dj. 0), bias = (\<lambda>out. 0), stat = (\<lambda>t. elem t)\<rparr>)
          \<lparr>dim_b = 4, dim_c = 64, dim_h = 64, dim_w = 64, elem = (\<lambda>n c i j. 0)\<rparr> = Inr y
        \<and> dim_h y = 64 \<and> dim_w y = 64"
  using down_then_up_size [where
      x = "\<lparr>dim_b = 4, dim_c = 64, dim_h = 64, dim_w = 64, elem = (\<lambda>n c i j. 0)\<rparr>"
      and base = 64 and n = 3 and tr = True
      and ps_down = "\<lambda>i. \<lparr>weight = (\<lambda>out c di dj. 0), bias = (\<lambda>out. 0), stat = (\<lambda>t. elem t)\<rparr>"
      and ps_up = "\<lambda>i. \<lparr>weight = (\<lambda>out c di dj. 0), bias = (\<lambda>out. 0), stat = (\<lambda>t. elem t)\<rparr>"]
  by simp

text \<open>
  One stage on a 3 by 3 input: the downscale pass pools it to 1 by 1, the upscale pass
  doubles that to 2 by 2, and the skip addition of the 3 by 3 input raises.
\<close>

theorem down_then_up_odd_size_raises:
  "down_then_up True 1 1
     (\<lambda>i. \<lparr>weight = (\<lambda>out c di dj. 0), bias = (\<lambda>out. 0), stat = (\<lambda>t. elem t)\<rparr>)
     (\<lambda>i. \<lparr>weight = (\<lambda>out c di dj. 0), bias = (\<lambda>out. 0), stat = (\<lambda>t. elem t)\<rparr>)
     \<lparr>dim_b = 1, dim_c = 1, dim_h = 3, dim_w = 3, elem = (\<lambda>n c i j. 0)\<rparr>
   = Inl RuntimeError"
  by (simp add: down_then_up_def RescaleBlock_forward_def RescaleBlock_init_def nn_Sequential_def
      conv_stage_def reflection_pad_def conv2d_def max_pool_def interpolate_nearest_def binop_def
      bdim_def and_then_def)

text \<open>
  Without base channels the blocks cannot be built: the constructor raises.
\<close>

lemma RescaleBlock_init_no_channels:
  "RescaleBlock_init (Suc n) sc 0 ub ps = Inl RuntimeError"
proof -
  have "[0..<Suc n] = 0 # [1..<Suc n]"
    by (simp add: upt_conv_Cons)
  then show ?thesis
    by (simp add: RescaleBlock_init_def nn_Sequential_def conv_stage_def and_then_def)
qed

lemma ResnetBlock_shape:
  assumes "4 \<le> d"
  shows "\<exists>block. ResnetBlock_init d ub ps = Inr block
           \<and> (\<forall>tr t. dim_c t = d \<and> 2 \<le> dim_h t \<and> 2 \<le> dim_w t \<longrightarrow>
                (\<exists>t'. ResnetBlock_forward tr block t = Inr t'
                   \<and> dim_b t' = dim_b t \<and> dim_c t' = d \<and> dim_h t' = dim_h t \<and> dim_w t' = dim_w t))"
proof -
  from assms have "0 < d div 4" "0 < d"
    by simp_all
  then show ?thesis
    by (simp add: ResnetBlock_init_def nn_Sequential_def ResnetBlock_forward_def reflection_pad_def
        conv2d_def and_then_def binop_def bdim_same)
qed

lemma bottleneck_shape:
  assumes "bs = [] \<or> 4 \<le> d"
  shows "\<exists>blocks. collect (map (\<lambda>b. ResnetBlock_init d ub (rp b)) bs) = Inr blocks
           \<and> (bs = [] \<longrightarrow> blocks = [])
           \<and> (\<forall>tr t. dim_c t = d \<and> 2 \<le> dim_h t \<and> 2 \<le> dim_w t \<longrightarrow>
                (\<exists>t'. bottleneck tr blocks t = Inr t'
                   \<and> dim_b t' = dim_b t \<and> dim_c t' = d \<and> dim_h t' = dim_h t \<and> dim_w t' = dim_w t))"
  using assms
proof (induction bs)
  case Nil
  then show ?case by simp
next
  case (Cons b bs)
  then have d: "4 \<le> d"
    by simp
  from ResnetBlock_shape [OF d, of ub "rp b"]
  obtain block where blk: "ResnetBlock_init d ub (rp b) = Inr block"
    and one: "\<And>tr t. dim_c t = d \<Longrightarrow> 2 \<le> dim_h t \<Longrightarrow> 2 \<le> dim_w t \<Longrightarrow>
                \<exists>t'. ResnetBlock_forward tr block t = Inr t'
                   \<and> dim_b t' = dim_b t \<and> dim_c t' = d \<and> dim_h t' = dim_h t \<and> dim_w t' = dim_w t"
    by blast
  from Cons.IH d
  obtain blocks where blks: "collect (map (\<lambda>b. ResnetBlock_init d ub (rp b)) bs) = Inr blocks"
    and rest: "\<And>tr t. dim_c t = d \<Longrightarrow> 2 \<le> dim_h t \<Longrightarrow> 2 \<le> dim_w t \<Longrightarrow>
                \<exists>t'. bottleneck tr blocks t = Inr t'
                   \<and> dim_b t' = dim_b t \<and> dim_c t' = d \<and> dim_h t' = dim_h t \<and> dim_w t' = dim_w t"
    by blast
  have "\<exists>t'. bottleneck tr (block # blocks) t = Inr t'
                   \<and> dim_b t' = dim_b t \<and> dim_c t' = d \<and> dim_h t' = dim_h t \<and> dim_w t' = dim_w t"
    if t: "dim_c t = d \<and> 2 \<le> dim_h t \<and> 2 \<le> dim_w t" for tr t
  proof -
    from one [of t tr] t obtain t1 where t1: "ResnetBlock_forward tr block t = Inr t1"
      and d1: "dim_b t1 = dim_b t" "dim_c t1 = d" "dim_h t1 = dim_h t" "dim_w t1 = dim_w t"
      by blast
    from rest [of t1 tr] d1 t obtain t' where "bottleneck tr blocks t1 = Inr t'"
      "dim_b t' = dim_b t1" "dim_c t' = d" "dim_h t' = dim_h t1" "dim_w t' = dim_w t1"
      by auto
    with t1 d1 show ?thesis
      by (simp add: and_then_def)
  qed
  then show ?case
    by (simp add: blk blks and_then_def)
qed

lemma entry_block_shape:
  assumes "dim_c t = 3" "4 \<le> dim_h t" "4 \<le> dim_w t"
  shows "\<exists>t'. sequential tr [ReflectionPad2d 3, SpectralNormConv2d 3 base 7 w b,
                               BatchNorm2d base s, LeakyReLU a] t
              = Inr t'
           \<and> dim_b t' = dim_b t \<and> dim_c t' = base \<and> dim_h t' = dim_h t \<and> dim_w t' = dim_w t"
  using assms by (simp add: reflection_pad_def conv2d_def and_then_def)

lemma final_block_shape:
  assumes "dim_c t = base" "4 \<le> dim_h t" "4 \<le> dim_w t"
  shows "\<exists>t'. sequential tr [ReflectionPad2d 3, Conv2d base 3 7 w b, Tanh] t = Inr t'
           \<and> dim_b t' = dim_b t \<and> dim_c t' = 3 \<and> dim_h t' = dim_h t \<and> dim_w t' = dim_w t
           \<and> (\<forall>n c i j. - 1 \<le> elem t' n c i j \<and> elem t' n c i j \<le> 1)"
  using assms tanh_real_lt_1 tanh_real_gt_neg1
  by (simp add: reflection_pad_def conv2d_def and_then_def less_imp_le)

lemma resize_shape:
  assumes "0 < dim_h t" "0 < dim_w t" "0 < oh" "0 < ow"
    and "case random_affine of None \<Rightarrow> True
         | Some shifts \<Rightarrow>
             (case GeoTransform_pads (dim_w t) shifts of
                Inl e \<Rightarrow> False
              | Inr (left, right, up, down) \<Rightarrow> left < dim_w t \<and> right < dim_w t)"
  shows "\<exists>t'. (case random_affine of
                 None \<Rightarrow> interpolate_size bil t (fst (oh, ow)) (snd (oh, ow))
               | Some shifts \<Rightarrow> GeoTransform_forward warp t (oh, ow) shifts) = Inr t'
           \<and> dim_b t' = dim_b t \<and> dim_c t' = dim_c t \<and> dim_h t' = oh \<and> dim_w t' = ow"
proof (cases random_affine)
  case None
  with assms show ?thesis
    by (simp add: interpolate_size_def)
next
  case (Some shifts)
  with assms(5) obtain l r u dn where p: "GeoTransform_pads (dim_w t) shifts = Inr (l, r, u, dn)"
    and lr: "l < dim_w t" "r < dim_w t"
    by (auto split: sum.splits)
  from p have "u = 0" "dn = 0"
    by (auto simp: GeoTransform_pads_def Let_def split: if_splits)
  with p lr assms Some show ?thesis
    by (simp add: GeoTransform_forward_def reflection_pad_def and_then_def grid_sample_def)
qed

lemma Generator_init_returns:
  assumes "0 < base" "n_blocks = 0 \<or> 4 \<le> base * 2 ^ n"
  shows "\<exists>blocks.
           Generator_init base n_blocks n use_bias skip_flag ps =
             Inr \<lparr>skip = skip_flag,
                  entry_block =
                    [ReflectionPad2d 3,
                     SpectralNormConv2d 3 base 7 (weight (entry_params ps))
                       (if use_bias then bias (entry_params ps) else (\<lambda>out. 0)),
                     BatchNorm2d base (stat (entry_params ps)), LeakyReLU (2 / 10)],
                  downscale_block =
                    \<lparr>scale = 1 / 2,
                     conv_layers = map (conv_stage (1 / 2) base True (down_params ps)) [0..<n]\<rparr>,
                  bottleneck_block = blocks,
                  upscale_block =
                    \<lparr>scale = 2,
                     conv_layers = rev (map (conv_stage 2 base True (up_params ps)) [0..<n])\<rparr>,
                  final_block =
                    [ReflectionPad2d 3,
                     Conv2d base 3 7 (weight (final_params ps)) (bias (final_params ps)), Tanh],
                  training = True\<rparr>
           \<and> (n_blocks = 0 \<longrightarrow> blocks = [])
           \<and> (\<forall>tr t. dim_c t = base * 2 ^ n \<and> 2 \<le> dim_h t \<and> 2 \<le> dim_w t \<longrightarrow>
                (\<exists>t'. bottleneck tr blocks t = Inr t'
                   \<and> dim_b t' = dim_b t \<and> dim_c t' = base * 2 ^ n
                   \<and> dim_h t' = dim_h t \<and> dim_w t' = dim_w t))"
proof -
  from assms(2) have "[0..<n_blocks] = [] \<or> 4 \<le> base * 2 ^ n"
    by auto
  from bottleneck_shape [OF this, of use_bias "res_params ps"]
  obtain blocks where
    blks: "collect (map (\<lambda>b. ResnetBlock_init (base * 2 ^ n) use_bias (res_params ps b))
              [0..<n_blocks]) = Inr blocks"
    and emp: "[0..<n_blocks] = [] \<longrightarrow> blocks = []"
    and run: "\<forall>tr t. dim_c t = base * 2 ^ n \<and> 2 \<le> dim_h t \<and> 2 \<le> dim_w t \<longrightarrow>
                (\<exists>t'. bottleneck tr blocks t = Inr t'
                   \<and> dim_b t' = dim_b t \<and> dim_c t' = base * 2 ^ n
                   \<and> dim_h t' = dim_h t \<and> dim_w t' = dim_w t)"
    by blast
  have "Generator_init base n_blocks n use_bias skip_flag ps =
             Inr \<lparr>skip = skip_flag,
                  entry_block =
                    [ReflectionPad2d 3,
                     SpectralNormConv2d 3 base 7 (weight (entry_params ps))
                       (if use_bias then bias (entry_params ps) else (\<lambda>out. 0)),
                     BatchNorm2d base (stat (entry_params ps)), LeakyReLU (2 / 10)],
                  downscale_block =
                    \<lparr>scale = 1 / 2,
                     conv_layers = map (conv_stage (1 / 2) base True (down_params ps)) [0..<n]\<rparr>,
                  bottleneck_block = blocks,
                  upscale_block =
                    \<lparr>scale = 2,
                     conv_layers = rev (map (conv_stage 2 base True (up_params ps)) [0..<n])\<rparr>,
                  final_block =
                    [ReflectionPad2d 3,
                     Conv2d base 3 7 (weight (final_params ps)) (bias (final_params ps)), Tanh],
                  training = True\<rparr>"
    using assms(1)
    by (simp add: Generator_init_def nn_Sequential_def RescaleBlock_init_returns blks and_then_def)
  with emp run show ?thesis
    by auto
qed

text \<open>
  C1. A valid call of \<^verbatim>\<open>Generator.forward\<close>: a non-empty batch of 3-channel images of at
  least 4 by 4 pixels; an output size of at least 4 by 4 whose sides are multiples of
  \<open>2 ^ n_downsampling\<close> (at least twice that, when there are residual blocks); positive
  channel widths; and, when a shift descriptor is present, pads smaller than the width of
  the input. Then the generator is built and, for either setting of the skip flag and
  either mode of the module, the call returns a tensor with the batch size of the input,
  3 channels and the requested output size, all of whose entries lie between \<open>-1\<close> and 1.
\<close>

theorem Generator_forward_output:
  assumes x: "dim_c x = 3" "4 \<le> dim_h x" "4 \<le> dim_w x" "0 < dim_b x"
    and os: "2 ^ n dvd oh" "2 ^ n dvd ow" "4 \<le> oh" "4 \<le> ow"
    and width: "0 < base" "n_blocks = 0 \<or> 4 \<le> base * 2 ^ n"
    and deep: "n_blocks = 0 \<or> (2 * 2 ^ n \<le> oh \<and> 2 * 2 ^ n \<le> ow)"
    and affine: "case random_affine of None \<Rightarrow> True
         | Some shifts \<Rightarrow>
             (case GeoTransform_pads (dim_w x) shifts of
                Inl e \<Rightarrow> False
              | Inr (left, right, up, down) \<Rightarrow> left < dim_w x \<and> right < dim_w x)"
  shows "\<exists>g y. Generator_init base n_blocks n use_bias skip_flag ps = Inr g
           \<and> Generator_forward bil warp (g\<lparr>training := tr\<rparr>) x (oh, ow) random_affine = Inr y
           \<and> shape y = (dim_b x, 3, oh, ow)
           \<and> (\<forall>b c i j. - 1 \<le> elem y b c i j \<and> elem y b c i j \<le> 1)"
proof -
  from Generator_init_returns [OF width, of use_bias skip_flag ps]
  obtain blocks where
    init: "Generator_init base n_blocks n use_bias skip_flag ps =
             Inr \<lparr>skip = skip_flag,
                  entry_block =
                    [ReflectionPad2d 3,
                     SpectralNormConv2d 3 base 7 (weight (entry_params ps))
                       (if use_bias then bias (entry_params ps) else (\<lambda>out. 0)),
                     BatchNorm2d base (stat (entry_params ps)), LeakyReLU (2 / 10)],
                  downscale_block =
                    \<lparr>scale = 1 / 2,
                     conv_layers = map (conv_stage (1 / 2) base True (down_params ps)) [0..<n]\<rparr>,
                  bottleneck_block = blocks,
                  upscale_block =
                    \<lparr>scale = 2,
                     conv_layers = rev (map (conv_stage 2 base True (up_params ps)) [0..<n])\<rparr>,
                  final_block =
                    [ReflectionPad2d 3,
                     Conv2d base 3 7 (weight (final_params ps)) (bias (final_params ps)), Tanh],
                  training = True\<rparr>"
    and emp: "n_blocks = 0 \<longrightarrow> blocks = []"
    and run: "\<forall>tr t. dim_c t = base * 2 ^ n \<and> 2 \<le> dim_h t \<and> 2 \<le> dim_w t \<longrightarrow>
                (\<exists>t'. bottleneck tr blocks t = Inr t'
                   \<and> dim_b t' = dim_b t \<and> dim_c t' = base * 2 ^ n
                   \<and> dim_h t' = dim_h t \<and> dim_w t' = dim_w t)"
    by blast
  define g where "g = \<lparr>skip = skip_flag,
                  entry_block =
                    [ReflectionPad2d 3,
                     SpectralNormConv2d 3 base 7 (weight (entry_params ps))
                       (if use_bias then bias (entry_params ps) else (\<lambda>out. 0)),
                     BatchNorm2d base (stat (entry_params ps)), LeakyReLU (2 / 10)],
                  downscale_block =
                    \<lparr>scale = 1 / 2,
                     conv_layers = map (conv_stage (1 / 2) base True (down_params ps)) [0..<n]\<rparr>,
                  bottleneck_block = blocks,
                  upscale_block =
                    \<lparr>scale = 2,
                     conv_layers = rev (map (conv_stage 2 base True (up_params ps)) [0..<n])\<rparr>,
                  final_block =
                    [ReflectionPad2d 3,
                     Conv2d base 3 7 (weight (final_params ps)) (bias (final_params ps)), Tanh],
                  training = tr\<rparr>"
  have gi: "\<exists>g0. Generator_init base n_blocks n use_bias skip_flag ps = Inr g0
              \<and> g0\<lparr>training := tr\<rparr> = g"
    unfolding init g_def by simp
  from os(1,3) obtain a where a: "oh = a * 2 ^ n" "0 < a"
    by (metis dvd_def mult.commute mult_zero_left neq0_conv not_numeral_le_zero)
  from os(2,4) obtain c where c: "ow = c * 2 ^ n" "0 < c"
    by (metis dvd_def mult.commute mult_zero_left neq0_conv not_numeral_le_zero)
  from entry_block_shape [OF x(1-3)]
  obtain fm0 where fm0: "sequential tr (entry_block g) x = Inr fm0"
    and d0: "dim_b fm0 = dim_b x" "dim_c fm0 = base" "dim_h fm0 = dim_h x" "dim_w fm0 = dim_w x"
    unfolding g_def by fastforce
  have "0 < dim_h fm0" "0 < dim_w fm0" "0 < oh" "0 < ow"
    using d0 x os by simp_all
  moreover have "case random_affine of None \<Rightarrow> True
         | Some shifts \<Rightarrow>
             (case GeoTransform_pads (dim_w fm0) shifts of
                Inl e \<Rightarrow> False
              | Inr (left, right, up, down) \<Rightarrow> left < dim_w fm0 \<and> right < dim_w fm0)"
    unfolding d0(4) by (rule affine)
  ultimately obtain fm1 where fm1: "(case random_affine of
                 None \<Rightarrow> interpolate_size bil fm0 (fst (oh, ow)) (snd (oh, ow))
               | Some shifts \<Rightarrow> GeoTransform_forward warp fm0 (oh, ow) shifts) = Inr fm1"
    and d1: "dim_b fm1 = dim_b fm0" "dim_c fm1 = dim_c fm0" "dim_h fm1 = oh" "dim_w fm1 = ow"
    using resize_shape [of fm0 oh ow random_affine bil warp] by blast
  have c1: "dim_c fm1 = base * 2 ^ 0" "dim_h fm1 = a * 2 ^ n" "dim_w fm1 = c * 2 ^ n"
    using d1 d0 a c by simp_all
  from down_loop [where tr = tr and pyr = None and ret = skip_flag and ub = True
      and ps = "down_params ps" and i = 0 and acc = "if skip_flag then [fm1] else []",
      OF c1 a(2) c(2)]
  obtain fm2 rest where
    down: "RescaleBlock_loop tr (1 / 2) None skip_flag False
             (map (conv_stage (1 / 2) base True (down_params ps)) [0..<n]) 0 fm1
             (if skip_flag then [fm1] else [])
           = Inr (fm2, if skip_flag then fm1 # rest else [])"
    and d2: "dim_b fm2 = dim_b fm1" "dim_c fm2 = base * 2 ^ n" "dim_h fm2 = a" "dim_w fm2 = c"
    and len: "length rest = n"
    and lv: "\<forall>j<n. dim_b (rest ! j) = dim_b fm1 \<and> dim_c (rest ! j) = base * 2 ^ Suc j
                  \<and> dim_h (rest ! j) = a * 2 ^ (n - Suc j) \<and> dim_w (rest ! j) = c * 2 ^ (n - Suc j)"
    by (cases skip_flag) auto
  have fdown: "RescaleBlock_forward tr (downscale_block g) fm1 None skip_flag False
      = Inr (fm2, if skip_flag then Some (fm1 # rest) else None)"
    using down
    by (simp add: g_def RescaleBlock_forward_def and_then_def)
  have "\<exists>fm3. bottleneck tr (bottleneck_block g) fm2 = Inr fm3
           \<and> dim_b fm3 = dim_b fm2 \<and> dim_c fm3 = base * 2 ^ n \<and> dim_h fm3 = a \<and> dim_w fm3 = c"
  proof (cases "n_blocks = 0")
    case True
    with emp show ?thesis
      using d2 by (simp add: g_def)
  next
    case False
    with deep a c have "2 * 2 ^ n \<le> a * 2 ^ n" "2 * 2 ^ n \<le> c * 2 ^ n"
      by simp_all
    then have "2 \<le> dim_h fm2" "2 \<le> dim_w fm2"
      using d2 by simp_all
    then have "dim_c fm2 = base * 2 ^ n \<and> 2 \<le> dim_h fm2 \<and> 2 \<le> dim_w fm2"
      using d2 by simp
    with run obtain fm3 where "bottleneck tr blocks fm2 = Inr fm3"
      "dim_b fm3 = dim_b fm2" "dim_c fm3 = base * 2 ^ n" "dim_h fm3 = dim_h fm2"
      "dim_w fm3 = dim_w fm2"
      by blast
    with d2 show ?thesis
      by (simp add: g_def)
  qed
  then obtain fm3 where fm3: "bottleneck tr (bottleneck_block g) fm2 = Inr fm3"
    and d3: "dim_b fm3 = dim_b fm2" "dim_c fm3 = base * 2 ^ n" "dim_h fm3 = a" "dim_w fm3 = c"
    by blast
  have lvp: "dim_b ((fm1 # rest) ! j) = dim_b fm3 \<and> dim_c ((fm1 # rest) ! j) = base * 2 ^ j \<and>
        dim_h ((fm1 # rest) ! j) = a * 2 ^ (n - j) \<and> dim_w ((fm1 # rest) ! j) = c * 2 ^ (n - j)"
    if j: "j < n" for j
  proof (cases j)
    case 0
    then show ?thesis
      using d3 d2 c1 by simp
  next
    case (Suc j')
    with j have "j' < n" by simp
    with lv d3 d2 show ?thesis
      unfolding Suc by simp
  qed
  have pyr: "skip_flag \<longrightarrow> (if skip_flag then Some (fm1 # rest) else None) = Some (fm1 # rest)
           \<and> 0 + n + 1 = length (fm1 # rest)
           \<and> (\<forall>j<n. dim_b ((fm1 # rest) ! j) = dim_b fm3 \<and> dim_c ((fm1 # rest) ! j) = base * 2 ^ j
                    \<and> dim_h ((fm1 # rest) ! j) = a * 2 ^ (n - j) \<and> dim_w ((fm1 # rest) ! j) = c * 2 ^ (n - j))"
    using lvp len by simp
  from up_loop [where tr = tr and ub = True and ps = "up_params ps" and acc = "[]",
      OF d3(2) d3(3) d3(4) a(2) c(2) pyr]
  obtain fm4 where up: "RescaleBlock_loop tr 2 (if skip_flag then Some (fm1 # rest) else None) False
                 skip_flag (rev (map (conv_stage 2 base True (up_params ps)) [0..<n])) 0 fm3 []
               = Inr (fm4, [])"
    and d4: "dim_b fm4 = dim_b fm3" "dim_c fm4 = base" "dim_h fm4 = a * 2 ^ n" "dim_w fm4 = c * 2 ^ n"
    by auto
  have fup: "RescaleBlock_forward tr (upscale_block g) fm3
               (if skip_flag then Some (fm1 # rest) else None) False skip_flag = Inr (fm4, None)"
    using up
    by (simp add: g_def RescaleBlock_forward_def and_then_def)
  have "dim_c fm4 = base" "4 \<le> dim_h fm4" "4 \<le> dim_w fm4"
    using d4 a c os by simp_all
  from final_block_shape [OF this, of tr "weight (final_params ps)" "bias (final_params ps)"]
  obtain y where y: "sequential tr (final_block g) fm4 = Inr y"
    and dy: "dim_b y = dim_b fm4" "dim_c y = 3" "dim_h y = dim_h fm4" "dim_w y = dim_w fm4"
    and bound: "\<forall>n c i j. - 1 \<le> elem y n c i j \<and> elem y n c i j \<le> 1"
    unfolding g_def by fastforce
  have sk: "skip g = skip_flag" "training g = tr"
    by (simp_all add: g_def)
  have "Generator_forward bil warp g x (oh, ow) random_affine = Inr y"
    unfolding Generator_forward_def sk
    using fm0 fm1 fdown fm3 fup y by (simp add: and_then_def)
  moreover have "shape y = (dim_b x, 3, oh, ow)"
    using dy d4 d3 d2 d1 d0 a c by (simp add: shape_def)
  ultimately show ?thesis
    using bound gi by blast
qed

theorem Generator_forward_output_witness:
  "\<exists>g y. Generator_init 64 6 3 True True
            \<lparr>entry_params = \<lparr>weight = (\<lambda>out c di dj. 0), bias = (\<lambda>out. 0), stat = (\<lambda>t. elem t)\<rparr>,
             down_params = (\<lambda>i. \<lparr>weight = (\<lambda>out c di dj. 0), bias = (\<lambda>out. 0), stat = (\<lambda>t. elem t)\<rparr>),
             res_params = (\<lambda>b i. \<lparr>weight = (\<lambda>out c di dj. 0), bias = (\<lambda>out. 0), stat = (\<lambda>t. elem t)\<rparr>),
             up_params = (\<lambda>i. \<lparr>weight = (\<lambda>out c di dj. 0), bias = (\<lambda>out. 0), stat = (\<lambda>t. elem t)\<rparr>),
             final_params = \<lparr>weight = (\<lambda>out c di dj. 0), bias = (\<lambda>out. 0), stat = (\<lambda>t. elem t)\<rparr>\<rparr>
          = Inr g
        \<and> Generator_forward (\<lambda>t h w. elem t) (\<lambda>shifts t h w. elem t) (g\<lparr>training := True\<rparr>)
            \<lparr>dim_b = 4, dim_c = 3, dim_h = 64, dim_w = 64, elem = (\<lambda>n c i j. 0)\<rparr>
            (64, 64) None = Inr y
        \<and> shape y = (4, 3, 64, 64)
        \<and> (\<forall>b c i j. - 1 \<le> elem y b c i j \<and> elem y b c i j \<le> 1)"
  using Generator_forward_output [where
      x = "\<lparr>dim_b = 4, dim_c = 3, dim_h = 64, dim_w = 64, elem = (\<lambda>n c i j. 0)\<rparr>"
      and n = 3 and oh = 64 and ow = 64 and base = 64 and n_blocks = 6 and random_affine = None
      and bil = "\<lambda>t h w. elem t" and warp = "\<lambda>shifts t h w. elem t" and use_bias = True
      and skip_flag = True and tr = True
      and ps = "\<lparr>entry_params = \<lparr>weight = (\<lambda>out c di dj. 0), bias = (\<lambda>out. 0), stat = (\<lambda>t. elem t)\<rparr>,
              down_params = (\<lambda>i. \<lparr>weight = (\<lambda>out c di dj. 0), bias = (\<lambda>out. 0), stat = (\<lambda>t. elem t)\<rparr>),
              res_params = (\<lambda>b i. \<lparr>weight = (\<lambda>out c di dj. 0), bias = (\<lambda>out. 0), stat = (\<lambda>t. elem t)\<rparr>),
              up_params = (\<lambda>i. \<lparr>weight = (\<lambda>out c di dj. 0), bias = (\<lambda>out. 0), stat = (\<lambda>t. elem t)\<rparr>),
              final_params = \<lparr>weight = (\<lambda>out c di dj. 0), bias = (\<lambda>out. 0), stat = (\<lambda>t. elem t)\<rparr>\<rparr>"]
  by simp

text \<open>
  An output size that the pooling and upsampling cannot reach: with one downsampling stage
  and no skip connections the requested 5 by 5 comes back as 4 by 4.
\<close>

lemma Generator_forward_unreachable_size:
  "map_sum id shape
     (and_then
        (Generator_init 4 0 1 True False
           \<lparr>entry_params = \<lparr>weight = (\<lambda>out c di dj. 0), bias = (\<lambda>out. 0), stat = (\<lambda>t. elem t)\<rparr>,
            down_params = (\<lambda>i. \<lparr>weight = (\<lambda>out c di dj. 0), bias = (\<lambda>out. 0), stat = (\<lambda>t. elem t)\<rparr>),
            res_params = (\<lambda>b i. \<lparr>weight = (\<lambda>out c di dj. 0), bias = (\<lambda>out. 0), stat = (\<lambda>t. elem t)\<rparr>),
            up_params = (\<lambda>i. \<lparr>weight = (\<lambda>out c di dj. 0), bias = (\<lambda>out. 0), stat = (\<lambda>t. elem t)\<rparr>),
            final_params = \<lparr>weight = (\<lambda>out c di dj. 0), bias = (\<lambda>out. 0), stat = (\<lambda>t. elem t)\<rparr>\<rparr>)
        (\<lambda>g. Generator_forward (\<lambda>t h w. elem t) (\<lambda>shifts t h w. elem t) g
               \<lparr>dim_b = 1, dim_c = 3, dim_h = 8, dim_w = 8, elem = (\<lambda>n c i j. 0)\<rparr>
               (5, 5) None))
   = Inr (1, 3, 4, 4)"
  by (simp add: Generator_forward_def Generator_init_def RescaleBlock_forward_def RescaleBlock_init_def
      nn_Sequential_def conv_stage_def reflection_pad_def conv2d_def max_pool_def
      interpolate_nearest_def interpolate_size_def and_then_def shape_def)

end
